theory Spec2Isabelle
  imports Complex_Main "HOL-Library.Multiset"
begin

section \<open>Python values\<close>

text \<open>
  The module \<^verbatim>\<open>error_mitigator.py\<close> works on measurement histograms: Python
  dictionaries from bitstrings to numbers. A dictionary is modelled as an association
  list in insertion order (a Python \<^verbatim>\<open>dict\<close> keeps that order and has no
  duplicate key). Counts that come from the device, from \<^verbatim>\<open>rem\<close> and from the
  extrapolation are Python \<^verbatim>\<open>int\<close>s and are modelled as \<open>int\<close>. Where one
  dictionary can hold both \<^verbatim>\<open>int\<close> and \<^verbatim>\<open>float\<close> values
  (\<^verbatim>\<open>equalize\<close>, \<^verbatim>\<open>_combine_pec_results\<close>) its values are \<open>pynum\<close>.

  A Python \<^verbatim>\<open>float\<close> is modelled by the real number it stands for: rounding is
  not modelled. The concrete inputs on which a property is shown to fail do not depend on
  it: either every intermediate value is exactly representable, or what is shown (a sign,
  the truncation of 10/3) holds for every value near the exact one.

  Exceptions are values: a function that can raise returns \<open>py_error + 'a\<close>.
\<close>

datatype py_error = TypeError | ZeroDivisionError | IndexError | ValueError

datatype pynum = PyInt int | PyFloat real

fun val_of :: "pynum \<Rightarrow> real" where
  "val_of (PyInt i) = real_of_int i"
| "val_of (PyFloat x) = x"

type_synonym counts = "(string \<times> int) list"
type_synonym histogram = "(string \<times> pynum) list"

text \<open>\<^verbatim>\<open>int(x)\<close> on a float truncates toward zero.\<close>

definition py_int :: "real \<Rightarrow> int" where
  "py_int x = (if 0 \<le> x then \<lfloor>x\<rfloor> else - \<lfloor>- x\<rfloor>)"

text \<open>\<^verbatim>\<open>a / b\<close> raises \<^verbatim>\<open>ZeroDivisionError\<close> when \<^verbatim>\<open>b\<close> is zero.\<close>

definition truediv :: "real \<Rightarrow> real \<Rightarrow> py_error + real" where
  "truediv a b = (if b = 0 then Inl ZeroDivisionError else Inr (a / b))"

text \<open>\<^verbatim>\<open>d.get(key)\<close> and \<^verbatim>\<open>d.get(key, 0)\<close> on a histogram of integer counts.\<close>

definition get :: "counts \<Rightarrow> string \<Rightarrow> int option" where
  "get d key = map_of d key"

definition get_default :: "counts \<Rightarrow> string \<Rightarrow> int \<Rightarrow> int" where
  "get_default d key dflt = (case map_of d key of None \<Rightarrow> dflt | Some v \<Rightarrow> v)"

text \<open>The two views of a histogram that \<^verbatim>\<open>==\<close> on dictionaries observes: its keys
  and the numeric value stored under each (\<^verbatim>\<open>0 == 0.0\<close> holds in Python).\<close>

definition keys :: "(string \<times> 'v) list \<Rightarrow> string list" where
  "keys d = map fst d"

definition numeric :: "histogram \<Rightarrow> (string \<times> real) list" where
  "numeric d = map (\<lambda>(key, val). (key, val_of val)) d"

definition as_histogram :: "counts \<Rightarrow> histogram" where
  "as_histogram d = map (\<lambda>(key, val). (key, PyInt val)) d"

section \<open>Equalizer\<close>

text \<open>
  \<^verbatim>\<open>ErrorMitigator.equalize\<close> (lines 507-530). \<open>k\<close> is
  \<^verbatim>\<open>len(measured_qubits)\<close> and \<open>dims\<close> is \<^verbatim>\<open>self.lattice.dims\<close>; both come
  from the lattice object, which is not part of this module.

  For \<open>k = 0\<close> the index \<^verbatim>\<open>2 ** (len(measured_qubits) - 1)\<close> is the float
  \<^verbatim>\<open>0.5\<close>, and indexing a list with a float raises \<^verbatim>\<open>TypeError\<close>. For
  \<open>k > 0\<close> the index is the integer \<open>2 ^ (k - 1)\<close>, and an index past the end raises
  \<^verbatim>\<open>IndexError\<close>. The division \<^verbatim>\<open>shots / (dims[0] * dims[1] * 0.5)\<close> is
  evaluated once for every key whose value is not below the cutoff. The loop variable
  \<^verbatim>\<open>count\<close> of the source is written \<open>cnt\<close>.
\<close>

fun equalize_items :: "real \<Rightarrow> int \<times> int \<Rightarrow> int \<Rightarrow> histogram \<Rightarrow> py_error + histogram" where
  "equalize_items cutoff dims shots [] = Inr []"
| "equalize_items cutoff dims shots ((key, val) # rest) =
     (if val_of val < cutoff then
        (case equalize_items cutoff dims shots rest of
           Inl e \<Rightarrow> Inl e
         | Inr eq_count \<Rightarrow> Inr ((key, PyInt 0) # eq_count))
      else
        (case truediv (real_of_int shots) (real_of_int (fst dims * snd dims) * 0.5) of
           Inl e \<Rightarrow> Inl e
         | Inr q \<Rightarrow>
             (case equalize_items cutoff dims shots rest of
                Inl e \<Rightarrow> Inl e
              | Inr eq_count \<Rightarrow> Inr ((key, PyFloat q) # eq_count))))"

definition equalize_count :: "nat \<Rightarrow> int \<times> int \<Rightarrow> int \<Rightarrow> histogram \<Rightarrow> py_error + histogram" where
  "equalize_count k dims shots cnt =
     (if k = 0 then Inl TypeError
      else
        (let sorted_values = sort (map (\<lambda>(key, val). val_of val) cnt);
             idx = 2 ^ (k - 1)
         in if idx < length sorted_values
            then equalize_items (sorted_values ! idx) dims shots cnt
            else Inl IndexError))"

fun equalize :: "nat \<Rightarrow> int \<times> int \<Rightarrow> int \<Rightarrow> histogram list \<Rightarrow> py_error + histogram list" where
  "equalize k dims shots [] = Inr []"
| "equalize k dims shots (cnt # rest) =
     (case equalize_count k dims shots cnt of
        Inl e \<Rightarrow> Inl e
      | Inr eq_count \<Rightarrow>
          (case equalize k dims shots rest of
             Inl e \<Rightarrow> Inl e
           | Inr equalized_counts \<Rightarrow> Inr (eq_count # equalized_counts)))"

section \<open>Float arithmetic\<close>

text \<open>
  \<^verbatim>\<open>rem\<close> and \<^verbatim>\<open>_combine_pec_results\<close> turn floats into integers with
  \<^verbatim>\<open>int\<close>, so their results depend on how each float operation was rounded. There
  a float is a real number and every operation rounds its exact result with
  \<open>round_double\<close>: to the nearest number with a significand of 53 bits, ties to the
  even significand, as IEEE 754 binary64 arithmetic does. \<open>ulp x\<close> is the distance
  between such numbers around \<open>x\<close>. Overflow, subnormal numbers and NaN are outside
  the model. Converting an \<^verbatim>\<open>int\<close> to a float rounds as well, and \<^verbatim>\<open>a / b\<close> on
  two \<^verbatim>\<open>int\<close>s is the correctly rounded quotient.
\<close>

definition round_half_even :: "real \<Rightarrow> int" where
  "round_half_even r =
     (let f = \<lfloor>r\<rfloor>
      in if r - of_int f < 1 / 2 then f
         else if 1 / 2 < r - of_int f then f + 1
         else if even f then f else f + 1)"

definition ulp :: "real \<Rightarrow> real" where
  "ulp x = 2 powi (\<lfloor>log 2 \<bar>x\<bar>\<rfloor> - 52)"

definition round_double :: "real \<Rightarrow> real" where
  "round_double x = (if x = 0 then 0 else ulp x * of_int (round_half_even (x / ulp x)))"

definition float_of_int :: "int \<Rightarrow> real" where
  "float_of_int i = round_double (real_of_int i)"

definition float_add :: "real \<Rightarrow> real \<Rightarrow> real" where
  "float_add x y = round_double (x + y)"

definition float_mul :: "real \<Rightarrow> real \<Rightarrow> real" where
  "float_mul x y = round_double (x * y)"

definition float_truediv :: "real \<Rightarrow> real \<Rightarrow> py_error + real" where
  "float_truediv x y = (if y = 0 then Inl ZeroDivisionError else Inr (round_double (x / y)))"

definition int_truediv :: "int \<Rightarrow> int \<Rightarrow> py_error + real" where
  "int_truediv a b =
     (if b = 0 then Inl ZeroDivisionError else Inr (round_double (real_of_int a / real_of_int b)))"

text \<open>\<^verbatim>\<open>sum(values)\<close> on floats: the additions run from left to right, starting from
  the integer 0.\<close>

definition float_sum :: "real list \<Rightarrow> real" where
  "float_sum xs = foldl float_add 0 xs"

section \<open>Formatting integers\<close>

text \<open>\<^verbatim>\<open>str(n)\<close> for an integer, as the f-strings that build the labels use it.\<close>

definition digit_char :: "nat \<Rightarrow> char" where
  "digit_char d = ''0123456789'' ! d"

function str_nat :: "nat \<Rightarrow> string" where
  "str_nat n = (if n < 10 then [digit_char n] else str_nat (n div 10) @ [digit_char (n mod 10)])"
  by pat_completeness auto
termination
  by (relation "measure (\<lambda>n. n)") auto

definition str_int :: "int \<Rightarrow> string" where
  "str_int i = (if i < 0 then CHR ''-'' # str_nat (nat (- i)) else str_nat (nat i))"

text \<open>The common tail of every label:
  \<^verbatim>\<open>-collisionless-{dims[0]}x{dims[1]}-ibm-qpu\<close>.\<close>

definition label_tail :: "int \<times> int \<Rightarrow> string" where
  "label_tail dims = ''-collisionless-'' @ str_int (fst dims) @ ''x'' @ str_int (snd dims) @ ''-ibm-qpu''"

section \<open>ReadoutCorrector\<close>

text \<open>
  \<^verbatim>\<open>ErrorMitigator.rem\<close> (lines 195-213). The calibration result (read from the
  table or measured on the device) and the mitigator object it holds belong to the
  calibration library, so the two library calls are parameters of the model:
  \<open>quasi_probabilities\<close> is \<^verbatim>\<open>mitigator.quasi_probabilities\<close>, and
  \<open>nearest_probability_distribution\<close> is
  \<^verbatim>\<open>prob.nearest_probability_distribution().binary_probabilities()\<close>, a dictionary
  from labels to probabilities. The last comprehension, \<^verbatim>\<open>int(prob * shots)\<close> for
  every item of that dictionary, is the part of the function written in this module;
  the product is a float product of \<^verbatim>\<open>prob\<close> and the shots count converted to a
  float.
\<close>

definition rem :: "(counts \<Rightarrow> 'q) \<Rightarrow> ('q \<Rightarrow> (string \<times> real) list) \<Rightarrow> int \<Rightarrow> counts list \<Rightarrow> counts list" where
  "rem quasi_probabilities nearest_probability_distribution shots counts =
     (let mitigated_quasi_probs = map quasi_probabilities counts;
          mitigated_probs = map nearest_probability_distribution mitigated_quasi_probs;
          mitigated_counts =
            map (\<lambda>mitigated_prob.
                   map (\<lambda>(label, prob). (label, py_int (float_mul prob (float_of_int shots))))
                     mitigated_prob)
              mitigated_probs
      in mitigated_counts)"

section \<open>CancellationSampler: combining the sampled histograms\<close>

text \<open>
  \<^verbatim>\<open>ErrorMitigator._combine_pec_results\<close> (lines 397-429). The sampled histograms
  come from \<^verbatim>\<open>get_counts()\<close> and hold integer counts. \<^verbatim>\<open>all_bitstrings\<close> is a
  Python \<^verbatim>\<open>set\<close>; its iteration order is not fixed by the language, and the model
  takes the order that \<open>remdups\<close> leaves (each key at its last occurrence). Every
  loop over the set and over the dictionary \<^verbatim>\<open>combined\<close> built from it runs in
  that one order.

  The two divisions of the source are \<open>int_truediv\<close> (two integers) and
  \<open>float_truediv\<close>, so a division by zero would show as \<open>Inl ZeroDivisionError\<close>;
  the additions, the sum and the product are the rounded float operations. When the rescaling is skipped the returned dictionary
  still holds the floats of the accumulation; after rescaling it holds \<^verbatim>\<open>int\<close>s.
  The parameter \<^verbatim>\<open>representation\<close> (here \<open>repn\<close>) is not used by the source.
\<close>

definition all_bitstrings_of :: "counts list \<Rightarrow> string list" where
  "all_bitstrings_of all_counts = remdups (concat (map keys all_counts))"

text \<open>One pass of the inner loop:
  \<^verbatim>\<open>combined[bitstring] += counts.get(bitstring, 0) / total_weight\<close> for every bitstring.\<close>

fun add_sample :: "nat \<Rightarrow> counts \<Rightarrow> (string \<times> real) list \<Rightarrow> py_error + (string \<times> real) list" where
  "add_sample total_weight counts [] = Inr []"
| "add_sample total_weight counts ((bitstring, acc) # rest) =
     (case int_truediv (get_default counts bitstring 0) (int total_weight) of
        Inl e \<Rightarrow> Inl e
      | Inr q \<Rightarrow>
          (case add_sample total_weight counts rest of
             Inl e \<Rightarrow> Inl e
           | Inr rest' \<Rightarrow> Inr ((bitstring, float_add acc q) # rest')))"

text \<open>The outer loop \<^verbatim>\<open>for counts in all_counts\<close>.\<close>

fun add_samples :: "nat \<Rightarrow> counts list \<Rightarrow> (string \<times> real) list \<Rightarrow> py_error + (string \<times> real) list" where
  "add_samples total_weight [] combined = Inr combined"
| "add_samples total_weight (counts # rest) combined =
     (case add_sample total_weight counts combined of
        Inl e \<Rightarrow> Inl e
      | Inr combined' \<Rightarrow> add_samples total_weight rest combined')"

definition combine_pec_results :: "counts list \<Rightarrow> 'rep \<Rightarrow> int \<Rightarrow> py_error + histogram" where
  "combine_pec_results all_counts repn target_shots =
     (if all_counts = [] then Inr []
      else
        (let all_bitstrings = all_bitstrings_of all_counts;
             combined = map (\<lambda>bitstring. (bitstring, 0)) all_bitstrings;
             total_weight = length all_counts
         in case add_samples total_weight all_counts combined of
              Inl e \<Rightarrow> Inl e
            | Inr combined \<Rightarrow>
                (let total_counts = float_sum (map snd combined)
                 in if total_counts > 0 then
                      (case float_truediv (float_of_int target_shots) total_counts of
                         Inl e \<Rightarrow> Inl e
                       | Inr scaling_factor \<Rightarrow>
                           Inr (map (\<lambda>(bs, c). (bs, PyInt (py_int (float_mul c scaling_factor))))
                                  combined))
                    else Inr (map (\<lambda>(bs, c). (bs, PyFloat c)) combined))))"

section \<open>NoiseExtrapolator: from corrected counts to extrapolated counts\<close>

text \<open>
  \<^verbatim>\<open>ErrorMitigator.zne\<close>, lines 476-503: what the function does once the folded
  circuits have run and their counts have gone through \<^verbatim>\<open>rem\<close> and \<^verbatim>\<open>ibu\<close>.
  Inputs of the model: \<open>all_counts\<close> (one list per step, holding one histogram per scale
  factor), \<open>first\<close> (the counts of the step-zero circuit), \<open>bitstrings\<close> (the result
  of \<^verbatim>\<open>generate_bitstrings(len(measured_qubits))\<close>, a helper that is not in this module;
  its strings are pairwise different, so the dictionary \<^verbatim>\<open>all_exps\<close> has one entry
  per string, in order) and \<open>extrapolate\<close> (\<^verbatim>\<open>zne.PolyFactory.extrapolate\<close> of the
  extrapolation library). The variable \<^verbatim>\<open>exp\<close> of the source is written \<open>exps\<close>.

  \<^verbatim>\<open>counts.get(bitstring) / shots\<close> raises \<^verbatim>\<open>TypeError\<close> when the bitstring is
  missing (\<^verbatim>\<open>None / shots\<close>) and \<^verbatim>\<open>ZeroDivisionError\<close> when it is present and
  \<^verbatim>\<open>shots\<close> is 0. The comprehension stops at the first histogram that raises. Only
  \<^verbatim>\<open>TypeError\<close> is caught, and the handler replaces the whole list.
\<close>

definition scale_factors :: "real list" where
  "scale_factors = [1, 1.5, 2, 2.5, 3, 3.5, 4]"

fun expectation_values :: "int \<Rightarrow> string \<Rightarrow> counts list \<Rightarrow> py_error + real list" where
  "expectation_values shots bitstring [] = Inr []"
| "expectation_values shots bitstring (counts # rest) =
     (case get counts bitstring of
        None \<Rightarrow> Inl TypeError
      | Some c \<Rightarrow>
          (case truediv (real_of_int c) (real_of_int shots) of
             Inl e \<Rightarrow> Inl e
           | Inr q \<Rightarrow>
               (case expectation_values shots bitstring rest of
                  Inl e \<Rightarrow> Inl e
                | Inr qs \<Rightarrow> Inr (q # qs))))"

text \<open>The \<^verbatim>\<open>try\<close> / \<^verbatim>\<open>except TypeError\<close> around the comprehension.\<close>

definition bitstring_exps :: "int \<Rightarrow> counts list \<Rightarrow> string \<Rightarrow> py_error + real list" where
  "bitstring_exps shots step_counts bitstring =
     (case expectation_values shots bitstring step_counts of
        Inr qs \<Rightarrow> Inr qs
      | Inl e \<Rightarrow> (if e = TypeError then Inr (map (\<lambda>counts. 0) step_counts) else Inl e))"

text \<open>\<^verbatim>\<open>for bitstring in bitstrings\<close>: the dictionary \<^verbatim>\<open>all_exps\<close> of one step.\<close>

fun all_exps_of :: "int \<Rightarrow> counts list \<Rightarrow> string list \<Rightarrow> py_error + (string \<times> real list) list" where
  "all_exps_of shots step_counts [] = Inr []"
| "all_exps_of shots step_counts (bitstring # rest) =
     (case bitstring_exps shots step_counts bitstring of
        Inl e \<Rightarrow> Inl e
      | Inr exps \<Rightarrow>
          (case all_exps_of shots step_counts rest of
             Inl e \<Rightarrow> Inl e
           | Inr all_exps \<Rightarrow> Inr ((bitstring, exps) # all_exps)))"

text \<open>\<^verbatim>\<open>for step in range(0, steps)\<close>: the list \<^verbatim>\<open>all_exps_arr\<close>.\<close>

fun all_exps_arr_of :: "int \<Rightarrow> string list \<Rightarrow> counts list list \<Rightarrow> py_error + (string \<times> real list) list list" where
  "all_exps_arr_of shots bitstrings [] = Inr []"
| "all_exps_arr_of shots bitstrings (step_counts # rest) =
     (case all_exps_of shots step_counts bitstrings of
        Inl e \<Rightarrow> Inl e
      | Inr all_exps \<Rightarrow>
          (case all_exps_arr_of shots bitstrings rest of
             Inl e \<Rightarrow> Inl e
           | Inr all_exps_arr \<Rightarrow> Inr (all_exps # all_exps_arr)))"

text \<open>Lines 491-496: extrapolation, conversion to integers, and the step-zero counts
  inserted in front.\<close>

definition zne_mitigated_counts ::
  "(real list \<Rightarrow> real list \<Rightarrow> nat \<Rightarrow> real) \<Rightarrow> string list \<Rightarrow> int \<Rightarrow> counts \<Rightarrow> counts list list \<Rightarrow>
   py_error + counts list" where
  "zne_mitigated_counts extrapolate bitstrings shots first all_counts =
     (case all_exps_arr_of shots bitstrings all_counts of
        Inl e \<Rightarrow> Inl e
      | Inr all_exps_arr \<Rightarrow>
          (let zero_noise_values_arr =
                 map (\<lambda>all_exps. map (\<lambda>exps. extrapolate scale_factors exps 2) (map snd all_exps))
                   all_exps_arr;
               m_vals =
                 map (\<lambda>zero_noise_values. map (\<lambda>znv. py_int (znv * real_of_int shots)) zero_noise_values)
                   zero_noise_values_arr;
               mitigated_counts = map (\<lambda>m_val. zip bitstrings m_val) m_vals
           in Inr (first # mitigated_counts)))"

text \<open>Lines 498-503: the optional equalization and the label.\<close>

definition zne_post ::
  "(real list \<Rightarrow> real list \<Rightarrow> nat \<Rightarrow> real) \<Rightarrow> bool \<Rightarrow> nat \<Rightarrow> int \<times> int \<Rightarrow> string list \<Rightarrow> int \<Rightarrow> counts \<Rightarrow>
   counts list list \<Rightarrow> py_error + histogram list \<times> string" where
  "zne_post extrapolate equalization k dims bitstrings shots first all_counts =
     (case zne_mitigated_counts extrapolate bitstrings shots first all_counts of
        Inl e \<Rightarrow> Inl e
      | Inr mitigated_counts \<Rightarrow>
          (if equalization then
             (case equalize k dims shots (map as_histogram mitigated_counts) of
                Inl e \<Rightarrow> Inl e
              | Inr equalized \<Rightarrow> Inr (equalized, ''zne'' @ label_tail dims))
           else Inr (map as_histogram mitigated_counts, ''zne'' @ label_tail dims)))"

section \<open>CancellationSampler: configuration and the table of representations\<close>

text \<open>
  \<^verbatim>\<open>PECConfig.get_config\<close> (lines 83-106). The dictionary \<^verbatim>\<open>config\<close> has the keys
  \<^verbatim>\<open>noise_level\<close>, \<^verbatim>\<open>num_samples\<close>, \<^verbatim>\<open>max_samples\<close> and, after the update
  with a backend's settings, \<^verbatim>\<open>preferred_samples\<close>.
\<close>

record pec_config =
  noise_level :: real
  num_samples :: int
  max_samples :: int
  preferred_samples :: "int option"

definition get_config :: "string \<Rightarrow> int \<times> int \<Rightarrow> pec_config" where
  "get_config backend_name lattice_dims =
     (let config = \<lparr>noise_level = 0.01, num_samples = 5000, max_samples = 10000,
                     preferred_samples = None\<rparr>;
          config = (if backend_name = ''ibm_brisbane''
                    then config\<lparr>noise_level := 0.008, max_samples := 8000,
                                preferred_samples := Some 4000\<rparr>
                    else config);
          lattice_config =
            (if lattice_dims = (2, 2) then Some (8000, 0.008)
             else if lattice_dims = (4, 4) then Some (5000, 0.010)
             else if lattice_dims = (6, 6) then Some (3000, 0.012)
             else if lattice_dims = (8, 8) then Some (2000, 0.015)
             else None)
      in case lattice_config of
           None \<Rightarrow> config
         | Some (samples, level) \<Rightarrow> config\<lparr>num_samples := samples, noise_level := level\<rparr>)"

text \<open>
  \<^verbatim>\<open>PECTable\<close> (lines 108-127). A circuit is read through \<^verbatim>\<open>depth()\<close>,
  \<^verbatim>\<open>count_ops()\<close> and \<^verbatim>\<open>num_qubits\<close> only. The key is the string
  \<^verbatim>\<open>{backend_name}_{circuit.depth()}_{hash(str(gate_counts))}\<close>; the model keeps its three
  components as a triple, and \<open>ops_hash\<close> stands for Python's \<^verbatim>\<open>hash\<close> of the printed
  gate counts. The state of the model is the dictionary \<^verbatim>\<open>representations\<close> together
  with \<open>producer_calls\<close>, a counter that is not in the source: it counts the calls of the
  library function that builds a representation.
\<close>

record circuit =
  depth :: int
  count_ops :: "(string \<times> nat) list"
  num_qubits :: nat

type_synonym pec_key = "string \<times> int \<times> int"

record 'r pec_state =
  representations :: "pec_key \<Rightarrow> 'r list option"
  producer_calls :: nat

definition get_key :: "((string \<times> nat) list \<Rightarrow> int) \<Rightarrow> string \<Rightarrow> circuit \<Rightarrow> pec_key" where
  "get_key ops_hash backend_name c =
     (let gate_counts = count_ops c in (backend_name, depth c, ops_hash gate_counts))"

definition store :: "'r pec_state \<Rightarrow> pec_key \<Rightarrow> 'r list \<Rightarrow> 'r pec_state" where
  "store st key reps = st\<lparr>representations := (representations st)(key \<mapsto> reps)\<rparr>"

definition load :: "'r pec_state \<Rightarrow> pec_key \<Rightarrow> 'r list option" where
  "load st key = representations st key"

text \<open>
  \<^verbatim>\<open>ErrorMitigator.generate_pec_representations\<close> (lines 264-315). \<open>producer\<close> is
  \<^verbatim>\<open>pec.represent_operations_in_circuit_with_local_depolarizing_noise\<close>; it returns
  \<open>None\<close> where the library call raises, which the \<^verbatim>\<open>except Exception\<close> of the loop
  catches. \<open>represent_circuit\<close> is one pass of the loop: the representation appended for
  the circuit and the new state. Before the loop,
  \<^verbatim>\<open>max([circuit.num_qubits for circuit in circuits])\<close> raises \<^verbatim>\<open>ValueError\<close> for
  an empty list; the noise model built from it is not used afterwards.
\<close>

definition represent_circuit ::
  "(circuit \<Rightarrow> real \<Rightarrow> int \<Rightarrow> 'r list option) \<Rightarrow> ((string \<times> nat) list \<Rightarrow> int) \<Rightarrow> string \<Rightarrow>
   pec_config \<Rightarrow> int \<Rightarrow> 'r pec_state \<Rightarrow> circuit \<Rightarrow> 'r list \<times> 'r pec_state" where
  "represent_circuit producer ops_hash backend_name config n_samples st c =
     (let key = get_key ops_hash backend_name c;
          cached_repr = load st key
      in case cached_repr of
           Some cached \<Rightarrow> (cached, st)
         | None \<Rightarrow>
             (let called = st\<lparr>producer_calls := producer_calls st + 1\<rparr>
              in case producer c (noise_level config) (min n_samples (max_samples config)) of
                   Some repn \<Rightarrow> (repn, store called key repn)
                 | None \<Rightarrow> ([], called)))"

fun represent_circuits ::
  "(circuit \<Rightarrow> real \<Rightarrow> int \<Rightarrow> 'r list option) \<Rightarrow> ((string \<times> nat) list \<Rightarrow> int) \<Rightarrow> string \<Rightarrow>
   pec_config \<Rightarrow> int \<Rightarrow> 'r pec_state \<Rightarrow> circuit list \<Rightarrow> 'r list list \<times> 'r pec_state" where
  "represent_circuits producer ops_hash backend_name config n_samples st [] = ([], st)"
| "represent_circuits producer ops_hash backend_name config n_samples st (c # rest) =
     (let (repn, st') = represent_circuit producer ops_hash backend_name config n_samples st c;
          (reps, st'') = represent_circuits producer ops_hash backend_name config n_samples st' rest
      in (repn # reps, st''))"

definition generate_pec_representations ::
  "(circuit \<Rightarrow> real \<Rightarrow> int \<Rightarrow> 'r list option) \<Rightarrow> ((string \<times> nat) list \<Rightarrow> int) \<Rightarrow> string \<Rightarrow>
   int \<times> int \<Rightarrow> 'r pec_state \<Rightarrow> circuit list \<Rightarrow> int \<Rightarrow> py_error + 'r list list \<times> 'r pec_state" where
  "generate_pec_representations producer ops_hash backend_name dims st circuits n_samples =
     (let pec_config = get_config backend_name dims
      in if circuits = [] then Inl ValueError
         else Inr (represent_circuits producer ops_hash backend_name pec_config n_samples st circuits))"

section \<open>Orchestrator\<close>

text \<open>
  \<^verbatim>\<open>ErrorMitigator.mitigate\<close> (lines 532-566). The five flags are the fields set by
  the constructor. \<open>self_rem\<close>, \<open>self_ibu\<close> and \<open>self_pec\<close> stand for the methods
  \<^verbatim>\<open>self.rem\<close>, \<^verbatim>\<open>self.ibu\<close> and \<^verbatim>\<open>self.pec\<close>, which run library code and
  the device; the type of a histogram is left open.
\<close>

record flags =
  equalization :: bool
  readout_error_mitigation :: bool
  iterative_bayesian_unfolding :: bool
  zero_noise_extrapolation :: bool
  probabilistic_error_cancellation :: bool

text \<open>\<^verbatim>\<open>sep.join(parts)\<close>.\<close>

fun join :: "string \<Rightarrow> string list \<Rightarrow> string" where
  "join sep [] = []"
| "join sep [part] = part"
| "join sep (part # rest) = part @ sep @ join sep rest"

definition mitigate ::
  "flags \<Rightarrow> int \<times> int \<Rightarrow> (int \<Rightarrow> 'h list \<Rightarrow> 'h list) \<Rightarrow> ('c list \<Rightarrow> int \<Rightarrow> 'h list \<Rightarrow> 'h list) \<Rightarrow>
   ('c list \<Rightarrow> int \<Rightarrow> 'h list \<times> string) \<Rightarrow> 'c list \<Rightarrow> int \<Rightarrow> 'h list \<Rightarrow> 'h list \<times> string" where
  "mitigate self dims self_rem self_ibu self_pec qcs shots counts =
     (if readout_error_mitigation self = False \<and> iterative_bayesian_unfolding self = False \<and>
         probabilistic_error_cancellation self = False
      then (counts, ''raw'' @ label_tail dims)
      else if probabilistic_error_cancellation self
      then self_pec qcs shots
      else
        (let mitigated_counts = counts;
             label_parts = [];
             (label_parts, mitigated_counts) =
               (if readout_error_mitigation self
                then (label_parts @ [''rem''], self_rem shots mitigated_counts)
                else (label_parts, mitigated_counts));
             (label_parts, mitigated_counts) =
               (if iterative_bayesian_unfolding self
                then (label_parts @ [''ibu''], self_ibu qcs shots mitigated_counts)
                else (label_parts, mitigated_counts))
         in (mitigated_counts, join ''-'' label_parts @ label_tail dims)))"

section \<open>Auxiliary definitions for the properties\<close>

text \<open>
  The value \<^verbatim>\<open>shots / (dims[0] * dims[1] * 0.5)\<close> that \<^verbatim>\<open>equalize\<close> writes for a
  bitstring at or above the cutoff, and the map that one pass of its loop body applies to
  an entry for a given cutoff.
\<close>

definition fill_value :: "int \<times> int \<Rightarrow> int \<Rightarrow> real" where
  "fill_value dims shots = real_of_int shots / (real_of_int (fst dims * snd dims) * 0.5)"

definition snap :: "real \<Rightarrow> int \<times> int \<Rightarrow> int \<Rightarrow> string \<times> pynum \<Rightarrow> string \<times> pynum" where
  "snap cutoff dims shots = (\<lambda>(key, val).
     (key, if val_of val < cutoff then PyInt 0 else PyFloat (fill_value dims shots)))"

text \<open>
  The mean that \<^verbatim>\<open>_combine_pec_results\<close> accumulates for one bitstring (a sample
  that lacks the bitstring counts 0; each quotient and each addition is rounded), the
  list of these means, and their total as \<^verbatim>\<open>sum\<close> computes it.
\<close>

definition mean_count :: "counts list \<Rightarrow> string \<Rightarrow> real" where
  "mean_count all_counts bitstring =
     foldl (\<lambda>acc counts.
              float_add acc
                (round_double (real_of_int (get_default counts bitstring 0) / real (length all_counts))))
       0 all_counts"

definition mean_counts :: "counts list \<Rightarrow> (string \<times> real) list" where
  "mean_counts all_counts =
     map (\<lambda>bitstring. (bitstring, mean_count all_counts bitstring)) (all_bitstrings_of all_counts)"

definition total_mean :: "counts list \<Rightarrow> real" where
  "total_mean all_counts = float_sum (map snd (mean_counts all_counts))"



definition nonneg_counts :: "counts \<Rightarrow> bool" where
  "nonneg_counts d = list_all (\<lambda>(key, val). 0 \<le> val) d"

text \<open>
  A probability distribution as the calibration library returns it, in floats: no
  probability is negative and the probabilities sum to 1 up to \<open>tol\<close>. The total of
  a histogram of integer counts.
\<close>

definition near_distribution :: "real \<Rightarrow> (string \<times> real) list \<Rightarrow> bool" where
  "near_distribution tol d \<longleftrightarrow>
     list_all (\<lambda>(label, prob). 0 \<le> prob) d \<and> \<bar>sum_list (map snd d) - 1\<bar> \<le> tol"

definition total_counts_of :: "counts \<Rightarrow> int" where
  "total_counts_of d = sum_list (map snd d)"

text \<open>
  The expectation values that \<^verbatim>\<open>zne\<close> hands to the extrapolation for one bitstring
  of one step, stated directly: the quotients when every histogram of the step has the
  bitstring, zeros for every scale factor otherwise. The zero-noise value is what the
  extrapolation returns for them.
\<close>

definition expectations :: "int \<Rightarrow> counts list \<Rightarrow> string \<Rightarrow> real list" where
  "expectations shots step_counts bitstring =
     (if list_all (\<lambda>counts. get counts bitstring \<noteq> None) step_counts
      then map (\<lambda>counts. real_of_int (get_default counts bitstring 0) / real_of_int shots) step_counts
      else map (\<lambda>counts. 0) step_counts)"

definition zero_noise_value ::
  "(real list \<Rightarrow> real list \<Rightarrow> nat \<Rightarrow> real) \<Rightarrow> int \<Rightarrow> counts list \<Rightarrow> string \<Rightarrow> real" where
  "zero_noise_value extrapolate shots step_counts bitstring =
     extrapolate scale_factors (expectations shots step_counts bitstring) 2"







definition drifting_step_missing :: "counts list" where
  "drifting_step_missing =
     [[(''0'', 100)], [(''0'', 95), (''1'', 5)], [(''0'', 90), (''1'', 10)],
      [(''0'', 85), (''1'', 15)], [(''0'', 80), (''1'', 20)], [(''0'', 75), (''1'', 25)],
      [(''0'', 70), (''1'', 30)]]"

text \<open>
  Concrete data for the table of representations: a circuit of depth 3, and the table of
  a new \<^verbatim>\<open>ErrorMitigator\<close> (no representation stored, no producer call made).
\<close>

definition sample_circuit :: circuit where
  "sample_circuit = \<lparr>depth = 3, count_ops = [(''h'', 2), (''cx'', 1), (''measure'', 2)], num_qubits = 2\<rparr>"

definition new_table :: "nat pec_state" where
  "new_table = \<lparr>representations = (\<lambda>key. None), producer_calls = 0\<rparr>"

text \<open>The table after one producer call has stored the representation \<open>[7]\<close> for
  \<open>sample_circuit\<close> on \<^verbatim>\<open>ibm_brisbane\<close> (with \<open>ops_hash\<close> constantly 0).\<close>

definition stored_table :: "nat pec_state" where
  "stored_table =
     \<lparr>representations = (\<lambda>key. None)((''ibm_brisbane'', 3, 0) \<mapsto> [7]), producer_calls = 1\<rparr>"

section \<open>Float arithmetic: accuracy and exact values\<close>

lemma two_powr_int: "(2::real) powr real_of_int n = 2 powi n"
  by (rule powr_real_of_int') simp_all

lemma binade:
  assumes "x \<noteq> 0"
  shows "2 powi \<lfloor>log 2 \<bar>x\<bar>\<rfloor> \<le> \<bar>x\<bar> \<and> \<bar>x\<bar> < 2 powi (\<lfloor>log 2 \<bar>x\<bar>\<rfloor> + 1)"
proof -
  from assms have pos: "0 < \<bar>x\<bar>" by simp
  have one: "(1::real) < 2" by simp
  have "\<lfloor>log 2 \<bar>x\<bar>\<rfloor> = \<lfloor>log 2 \<bar>x\<bar>\<rfloor>" ..
  then have "2 powr real_of_int \<lfloor>log 2 \<bar>x\<bar>\<rfloor> \<le> \<bar>x\<bar> \<and>
      \<bar>x\<bar> < 2 powr real_of_int (\<lfloor>log 2 \<bar>x\<bar>\<rfloor> + 1)"
    by (simp only: floor_log_eq_powr_iff [OF pos one])
  then show ?thesis by (simp only: two_powr_int)
qed


lemma ulp_pos: "0 < ulp x"
  by (simp add: ulp_def)

lemma round_half_even_error: "\<bar>of_int (round_half_even r) - r\<bar> \<le> 1 / 2"
  by (auto simp: round_half_even_def Let_def)

lemma round_half_even_of_int: "round_half_even (of_int m) = m"
  by (simp add: round_half_even_def)

lemma round_half_even_nonneg: "0 \<le> r \<Longrightarrow> 0 \<le> round_half_even r"
  by (auto simp: round_half_even_def Let_def)

lemma ulp_le: "x \<noteq> 0 \<Longrightarrow> ulp x * 2 ^ 52 \<le> \<bar>x\<bar>"
proof -
  assume "x \<noteq> 0"
  then have "2 powi \<lfloor>log 2 \<bar>x\<bar>\<rfloor> \<le> \<bar>x\<bar>" using binade by blast
  moreover have "ulp x * 2 ^ 52 = 2 powi \<lfloor>log 2 \<bar>x\<bar>\<rfloor>"
    by (simp add: ulp_def power_int_diff)
  ultimately show ?thesis by simp
qed

lemma round_double_error: "\<bar>round_double x - x\<bar> \<le> \<bar>x\<bar> / 2 ^ 53"
proof (cases "x = 0")
  case True
  then show ?thesis by (simp add: round_double_def)
next
  case False
  define u where "u = ulp x"
  define r where "r = x / u"
  have u: "0 < u" unfolding u_def by (rule ulp_pos)
  have x: "x = u * r" using u by (simp add: r_def)
  have "round_double x = u * of_int (round_half_even r)"
    using False by (simp add: round_double_def u_def r_def)
  then have "round_double x - x = u * (of_int (round_half_even r) - r)"
    by (simp add: r_def algebra_simps) (use u in simp)
  then have "\<bar>round_double x - x\<bar> = u * \<bar>of_int (round_half_even r) - r\<bar>"
    using u by (simp add: abs_mult)
  also have "\<dots> \<le> u * (1 / 2)"
    using u round_half_even_error [of r] by (intro mult_left_mono) simp_all
  also have "\<dots> = (u * 2 ^ 52) / 2 ^ 53" by simp
  also have "\<dots> \<le> \<bar>x\<bar> / 2 ^ 53"
    using ulp_le [OF False] unfolding u_def by (intro divide_right_mono) simp_all
  finally show ?thesis .
qed

lemma round_double_nonneg: "0 \<le> x \<Longrightarrow> 0 \<le> round_double x"
  using ulp_pos [of x] by (simp add: round_double_def round_half_even_nonneg)

lemma round_double_zero_iff: "round_double x = 0 \<longleftrightarrow> x = 0"
proof
  assume "round_double x = 0"
  with round_double_error [of x] have "\<bar>x\<bar> \<le> \<bar>x\<bar> / 2 ^ 53" by simp
  then show "x = 0" by simp
next
  assume "x = 0"
  then show "round_double x = 0" by (simp add: round_double_def)
qed

lemma round_double_pos: "0 < x \<Longrightarrow> 0 < round_double x"
  using round_double_nonneg [of x] round_double_zero_iff [of x] by (simp add: order_less_le)

lemma round_double_bounds:
  assumes "0 \<le> x"
  shows "(1 - 1 / 2 ^ 53) * x \<le> round_double x \<and> round_double x \<le> (1 + 1 / 2 ^ 53) * x"
proof -
  from round_double_error [of x] assms have e: "\<bar>round_double x - x\<bar> \<le> x / 2 ^ 53" by simp
  then have "x - x / 2 ^ 53 \<le> round_double x" and "round_double x \<le> x + x / 2 ^ 53"
    by linarith+
  then show ?thesis by (simp add: algebra_simps)
qed

lemma round_double_exact:
  assumes "2 powi e \<le> \<bar>x\<bar>" and "\<bar>x\<bar> < 2 powi (e + 1)" and "x / 2 powi (e - 52) = of_int n"
  shows "round_double x = x"
proof -
  have "0 < (2::real) powi e" by simp
  with assms(1) have pos: "0 < \<bar>x\<bar>" by linarith
  then have nz: "x \<noteq> 0" by simp
  have one: "(1::real) < 2" by simp
  from assms(1,2) have "2 powr real_of_int e \<le> \<bar>x\<bar> \<and> \<bar>x\<bar> < 2 powr real_of_int (e + 1)"
    by (simp only: two_powr_int)
  then have "\<lfloor>log 2 \<bar>x\<bar>\<rfloor> = e"
    by (simp only: floor_log_eq_powr_iff [OF pos one])
  then have u: "ulp x = 2 powi (e - 52)" by (simp add: ulp_def)
  have "round_double x = 2 powi (e - 52) * of_int (round_half_even (x / 2 powi (e - 52)))"
    using nz by (simp add: round_double_def u)
  also have "\<dots> = 2 powi (e - 52) * (x / 2 powi (e - 52))"
    by (simp only: assms(3) round_half_even_of_int)
  also have "\<dots> = x" by simp
  finally show ?thesis .
qed

lemma round_double_values:
  "round_double 0 = 0" "round_double 1 = 1" "round_double 2 = 2" "round_double 3 = 3"
  "round_double 4 = 4" "round_double 5 = 5" "round_double 6 = 6" "round_double 8 = 8"
  "round_double 10 = 10" "round_double 20 = 20" "round_double 30 = 30" "round_double 40 = 40"
  "round_double 70 = 70" "round_double 100 = 100" "round_double (5 / 2) = 5 / 2"
proof -
  show "round_double 0 = 0" by (simp add: round_double_def)
  show "round_double 1 = 1" by (rule round_double_exact [of 0 _ "2 ^ 52"]) simp_all
  show "round_double 2 = 2" by (rule round_double_exact [of 1 _ "2 ^ 52"]) simp_all
  show "round_double 3 = 3" by (rule round_double_exact [of 1 _ "3 * 2 ^ 51"]) simp_all
  show "round_double 4 = 4" by (rule round_double_exact [of 2 _ "2 ^ 52"]) simp_all
  show "round_double 5 = 5" by (rule round_double_exact [of 2 _ "5 * 2 ^ 50"]) simp_all
  show "round_double 6 = 6" by (rule round_double_exact [of 2 _ "3 * 2 ^ 51"]) simp_all
  show "round_double 8 = 8" by (rule round_double_exact [of 3 _ "2 ^ 52"]) simp_all
  show "round_double 10 = 10" by (rule round_double_exact [of 3 _ "5 * 2 ^ 50"]) simp_all
  show "round_double 20 = 20" by (rule round_double_exact [of 4 _ "5 * 2 ^ 50"]) simp_all
  show "round_double 30 = 30" by (rule round_double_exact [of 4 _ "15 * 2 ^ 49"]) simp_all
  show "round_double 40 = 40" by (rule round_double_exact [of 5 _ "5 * 2 ^ 50"]) simp_all
  show "round_double 70 = 70" by (rule round_double_exact [of 6 _ "35 * 2 ^ 47"]) simp_all
  show "round_double 100 = 100" by (rule round_double_exact [of 6 _ "25 * 2 ^ 48"]) simp_all
  show "round_double (5 / 2) = 5 / 2" by (rule round_double_exact [of 1 _ "5 * 2 ^ 50"]) simp_all
qed

section \<open>Truncation to integers\<close>

lemma py_int_upper: "0 \<le> x \<Longrightarrow> real_of_int (py_int x) \<le> x"
  by (simp add: py_int_def)

lemma py_int_lower: "0 \<le> x \<Longrightarrow> x - 1 < real_of_int (py_int x)"
  by (simp add: py_int_def)

lemma truncated_sum_upper:
  "(\<And>x. x \<in> set xs \<Longrightarrow> 0 \<le> x) \<Longrightarrow>
   sum_list (map (\<lambda>x. real_of_int (py_int x)) xs) \<le> sum_list xs"
proof (induction xs)
  case Nil
  then show ?case by simp
next
  case (Cons x xs)
  have "real_of_int (py_int x) \<le> x" using Cons.prems by (simp add: py_int_upper)
  moreover have "sum_list (map (\<lambda>x. real_of_int (py_int x)) xs) \<le> sum_list xs"
    using Cons by simp
  ultimately show ?case by simp
qed

lemma truncated_sum_lower:
  "(\<And>x. x \<in> set xs \<Longrightarrow> 0 \<le> x) \<Longrightarrow>
   sum_list xs - real (length xs) \<le> sum_list (map (\<lambda>x. real_of_int (py_int x)) xs)"
proof (induction xs)
  case Nil
  then show ?case by simp
next
  case (Cons x xs)
  have "x - 1 < real_of_int (py_int x)" using Cons.prems by (simp add: py_int_lower)
  moreover have "sum_list xs - real (length xs) \<le> sum_list (map (\<lambda>x. real_of_int (py_int x)) xs)"
    using Cons by simp
  ultimately show ?case by simp
qed

lemma truncated_sum_lower_strict:
  assumes "\<And>x. x \<in> set xs \<Longrightarrow> 0 \<le> x" and "xs \<noteq> []"
  shows "sum_list xs - real (length xs) < sum_list (map (\<lambda>x. real_of_int (py_int x)) xs)"
proof (cases xs)
  case Nil
  with assms(2) show ?thesis by simp
next
  case (Cons y ys)
  have "y - 1 < real_of_int (py_int y)" using assms(1) Cons by (simp add: py_int_lower)
  moreover have "sum_list ys - real (length ys) \<le> sum_list (map (\<lambda>x. real_of_int (py_int x)) ys)"
    using assms(1) Cons by (intro truncated_sum_lower) simp
  ultimately show ?thesis using Cons by simp
qed

lemma py_int_nonneg: "0 \<le> x \<Longrightarrow> 0 \<le> py_int x"
  by (simp add: py_int_def)

text \<open>Integers below \<open>2\<^sup>5\<^sup>3\<close> are floats, so converting them is exact.\<close>

lemma round_double_of_int:
  assumes "0 \<le> m" and "m < 2 ^ 53"
  shows "round_double (real_of_int m) = real_of_int m"
proof (cases "m = 0")
  case True
  then show ?thesis by (simp add: round_double_def)
next
  case False
  define x where "x = real_of_int m"
  define e where "e = \<lfloor>log 2 \<bar>x\<bar>\<rfloor>"
  from False assms(1) have x1: "1 \<le> x" by (simp add: x_def)
  then have ax: "\<bar>x\<bar> = x" and nz: "x \<noteq> 0" by simp_all
  from assms(2) have x53: "x < 2 ^ 53" unfolding x_def
    by (metis of_int_less_iff of_int_numeral of_int_power)
  from binade [OF nz] have lo: "2 powi e \<le> \<bar>x\<bar>" and hi: "\<bar>x\<bar> < 2 powi (e + 1)"
    by (simp_all add: e_def)
  have "0 \<le> log 2 x" using x1 by simp
  then have e0: "0 \<le> e" by (simp add: e_def ax)
  have "log 2 x < 53" using x1 x53 by (simp add: log_less_iff)
  then have "e < 53" by (simp add: e_def ax floor_less_iff)
  then have e52: "e \<le> 52" by simp
  have p: "(2::real) powi (e - 52) = 1 / 2 ^ nat (52 - e)"
  proof -
    have "(2::real) powi (e - 52) = 2 powi (- (52 - e))" by simp
    also have "\<dots> = 1 / 2 powi (52 - e)" by (simp only: power_int_minus_divide)
    also have "\<dots> = 1 / 2 ^ nat (52 - e)" using e52 by (simp add: power_int_nonneg_exp)
    finally show ?thesis .
  qed
  have "x / 2 powi (e - 52) = real_of_int (m * 2 ^ nat (52 - e))"
    by (simp add: p x_def)
  with lo hi have "round_double x = x" by (rule round_double_exact)
  then show ?thesis by (simp add: x_def)
qed

lemma float_of_int_exact: "0 \<le> i \<Longrightarrow> i < 2 ^ 53 \<Longrightarrow> float_of_int i = real_of_int i"
  by (simp add: float_of_int_def round_double_of_int)

lemma float_of_int_nonneg: "0 \<le> i \<Longrightarrow> 0 \<le> float_of_int i"
  by (simp add: float_of_int_def round_double_nonneg)

lemma float_mul_nonneg: "0 \<le> x \<Longrightarrow> 0 \<le> y \<Longrightarrow> 0 \<le> float_mul x y"
  by (simp add: float_mul_def round_double_nonneg)

section \<open>Sums of rounded floats\<close>




lemma rounded_products_sum:
  assumes "0 \<le> s" and "list_all (\<lambda>(label, prob). 0 \<le> prob) d"
  shows "(1 - 1 / 2 ^ 53) * (sum_list (map snd d) * s) \<le>
           sum_list (map (\<lambda>(label, prob). round_double (prob * s)) d) \<and>
         sum_list (map (\<lambda>(label, prob). round_double (prob * s)) d) \<le>
           (1 + 1 / 2 ^ 53) * (sum_list (map snd d) * s)"
  using assms(2)
proof (induction d)
  case Nil
  then show ?case by simp
next
  case (Cons a d)
  obtain label prob where a: "a = (label, prob)" by (cases a)
  from Cons.prems a have p: "0 \<le> prob" and rest: "list_all (\<lambda>(label, prob). 0 \<le> prob) d"
    by simp_all
  from p assms(1) have "0 \<le> prob * s" by simp
  from round_double_bounds [OF this]
  have lo: "(1 - 1 / 2 ^ 53) * (prob * s) \<le> round_double (prob * s)"
    and hi: "round_double (prob * s) \<le> (1 + 1 / 2 ^ 53) * (prob * s)" by simp_all
  from Cons.IH [OF rest]
  have lo': "(1 - 1 / 2 ^ 53) * (sum_list (map snd d) * s) \<le>
           sum_list (map (\<lambda>(label, prob). round_double (prob * s)) d)"
    and hi': "sum_list (map (\<lambda>(label, prob). round_double (prob * s)) d) \<le>
           (1 + 1 / 2 ^ 53) * (sum_list (map snd d) * s)" by simp_all
  have e: "sum_list (map snd (a # d)) * s = prob * s + sum_list (map snd d) * s"
    by (simp add: a algebra_simps)
  have f: "sum_list (map (\<lambda>(label, prob). round_double (prob * s)) (a # d)) =
      round_double (prob * s) + sum_list (map (\<lambda>(label, prob). round_double (prob * s)) d)"
    by (simp add: a)
  show ?case unfolding e f using lo hi lo' hi' by (simp add: distrib_left)
qed







section \<open>Equalizer: where it is defined\<close>

lemma equalize_count_short:
  "0 < k \<Longrightarrow> length h \<le> 2 ^ (k - 1) \<Longrightarrow> equalize_count k dims shots h = Inl IndexError"
  by (simp add: equalize_count_def Let_def)

lemma equalize_count_no_qubits: "equalize_count 0 dims shots h = Inl TypeError"
  by (simp add: equalize_count_def)

lemma equalize_count_defined:
  "equalize_count k dims shots h = Inr r \<Longrightarrow> 0 < k \<and> 2 ^ (k - 1) < length h"
  by (auto simp: equalize_count_def Let_def split: if_splits)

lemma equalize_defined:
  "equalize k dims shots hs = Inr r \<Longrightarrow> h \<in> set hs \<Longrightarrow> 0 < k \<and> 2 ^ (k - 1) < length h"
proof (induction hs arbitrary: r)
  case Nil
  then show ?case by simp
next
  case (Cons c cs)
  from Cons.prems(1) obtain e1 es where
    c: "equalize_count k dims shots c = Inr e1" and cs: "equalize k dims shots cs = Inr es"
    by (auto split: sum.splits)
  from Cons.prems(2) have "h = c \<or> h \<in> set cs" by simp
  then show ?case
  proof
    assume "h = c"
    with c show ?thesis using equalize_count_defined by blast
  next
    assume "h \<in> set cs"
    with cs show ?thesis using Cons.IH by blast
  qed
qed

text \<open>
  C9. With \<open>k\<close> measured qubits \<^verbatim>\<open>equalize\<close> reads the sorted values at index
  \<open>2 ^ (k - 1)\<close>. If it returns a result, every input histogram has strictly more than
  \<open>2 ^ (k - 1)\<close> entries. A histogram with at most \<open>2 ^ (k - 1)\<close> entries makes the
  loop body raise \<^verbatim>\<open>IndexError\<close> (for \<open>k = 0\<close> the index is not an integer and
  the body raises \<^verbatim>\<open>TypeError\<close> whatever the histogram), and a list that holds
  such a histogram makes \<^verbatim>\<open>equalize\<close> raise instead of returning.
\<close>

theorem equalize_partial:
  "(equalize k dims shots hs = Inr r \<longrightarrow> list_all (\<lambda>h. 0 < k \<and> 2 ^ (k - 1) < length h) hs) \<and>
   (0 < k \<and> length h \<le> 2 ^ (k - 1) \<longrightarrow> equalize_count k dims shots h = Inl IndexError) \<and>
   (k = 0 \<longrightarrow> equalize_count k dims shots h = Inl TypeError) \<and>
   (h \<in> set hs \<and> length h \<le> 2 ^ (k - 1) \<longrightarrow> (\<exists>e. equalize k dims shots hs = Inl e))"
proof (intro conjI impI)
  assume "equalize k dims shots hs = Inr r"
  then show "list_all (\<lambda>h. 0 < k \<and> 2 ^ (k - 1) < length h) hs"
    unfolding list_all_iff using equalize_defined by blast
next
  assume "0 < k \<and> length h \<le> 2 ^ (k - 1)"
  then show "equalize_count k dims shots h = Inl IndexError"
    by (simp add: equalize_count_short)
next
  assume "k = 0"
  then show "equalize_count k dims shots h = Inl TypeError"
    by (simp add: equalize_count_no_qubits)
next
  assume a: "h \<in> set hs \<and> length h \<le> 2 ^ (k - 1)"
  show "\<exists>e. equalize k dims shots hs = Inl e"
  proof (cases "equalize k dims shots hs")
    case (Inl e)
    then show ?thesis by blast
  next
    case (Inr r')
    with a have "2 ^ (k - 1) < length h" using equalize_defined by blast
    with a show ?thesis by simp
  qed
qed

theorem equalize_partial_witness:
  "equalize_count 1 (2, 2) 4 [(''0'', PyInt 1)] = Inl IndexError \<and>
   (\<exists>e. equalize 1 (2, 2) 4 [[(''0'', PyInt 1), (''1'', PyInt 3)], [(''0'', PyInt 1)]] = Inl e) \<and>
   equalize 1 (2, 2) 4 [[(''0'', PyInt 1), (''1'', PyInt 3)]] =
     Inr [[(''0'', PyInt 0), (''1'', PyFloat 2)]] \<and>
   list_all (\<lambda>h. (0::nat) < 1 \<and> 2 ^ (1 - 1) < length h) [[(''0'', PyInt 1), (''1'', PyInt 3)]]"
proof -
  have ok: "equalize 1 (2, 2) 4 [[(''0'', PyInt 1), (''1'', PyInt 3)]] =
      Inr [[(''0'', PyInt 0), (''1'', PyFloat 2)]]"
    by (simp add: equalize_count_def truediv_def)
  have short: "(0::nat) < 1 \<and> length [(''0'', PyInt 1)] \<le> 2 ^ (1 - 1)"
    by simp
  have mem: "[(''0'', PyInt 1)] \<in> set [[(''0'', PyInt 1), (''1'', PyInt 3)], [(''0'', PyInt 1)]] \<and>
      length [(''0'', PyInt 1)] \<le> 2 ^ (1 - 1)"
    by simp
  from short
    equalize_partial [of 1 "(2, 2)" 4 "[[(''0'', PyInt 1), (''1'', PyInt 3)]]"
      "[[(''0'', PyInt 0), (''1'', PyFloat 2)]]" "[(''0'', PyInt 1)]"] ok
  have a: "equalize_count 1 (2, 2) 4 [(''0'', PyInt 1)] = Inl IndexError"
    and c: "list_all (\<lambda>h. (0::nat) < 1 \<and> 2 ^ (1 - 1) < length h) [[(''0'', PyInt 1), (''1'', PyInt 3)]]"
    by blast+
  from mem
    equalize_partial [of 1 "(2, 2)" 4 "[[(''0'', PyInt 1), (''1'', PyInt 3)], [(''0'', PyInt 1)]]"
      "[]" "[(''0'', PyInt 1)]"]
  have b: "\<exists>e. equalize 1 (2, 2) 4 [[(''0'', PyInt 1), (''1'', PyInt 3)], [(''0'', PyInt 1)]] = Inl e"
    by blast
  from a b ok c show ?thesis by blast
qed

section \<open>Equalizer: applying it twice\<close>

lemma sorted_map_mono:
  fixes g :: "real \<Rightarrow> real"
  assumes "mono g" "sorted ys"
  shows "sorted (map g ys)"
  using assms(2) by (induction ys) (auto intro: monoD [OF assms(1)])

lemma sort_map_mono:
  fixes g :: "real \<Rightarrow> real"
  assumes "mono g"
  shows "sort (map g xs) = map g (sort xs)"
proof (rule properties_for_sort)
  show "mset (map g (sort xs)) = mset (map g xs)" by simp
  show "sorted (map g (sort xs))"
    using assms by (simp add: sorted_map_mono)
qed

lemma equalize_items_ok:
  "fst dims * snd dims \<noteq> 0 \<Longrightarrow>
   equalize_items cutoff dims shots h = Inr (map (snap cutoff dims shots) h)"
  by (induction h) (auto simp: snap_def fill_value_def truediv_def)

lemma equalize_items_div:
  "equalize_items cutoff dims shots h = Inr r \<Longrightarrow> (key, val) \<in> set h \<Longrightarrow>
   \<not> val_of val < cutoff \<Longrightarrow> fst dims * snd dims \<noteq> 0"
  by (induction h arbitrary: r) (auto simp: truediv_def split: if_splits sum.splits)

lemma equalize_count_Inr:
  assumes "equalize_count k dims shots h = Inr r"
  shows "0 < k \<and> 2 ^ (k - 1) < length h \<and> fst dims * snd dims \<noteq> 0 \<and>
         r = map (snap (sort (map (\<lambda>(key, val). val_of val) h) ! (2 ^ (k - 1))) dims shots) h"
proof -
  let ?vs = "sort (map (\<lambda>(key, val). val_of val) h)"
  let ?c = "?vs ! (2 ^ (k - 1))"
  from assms have k: "0 < k" and len: "2 ^ (k - 1) < length h"
    using equalize_count_defined by blast+
  from assms k len have items: "equalize_items ?c dims shots h = Inr r"
    by (simp add: equalize_count_def Let_def)
  from len have "?c \<in> set ?vs" by (simp del: set_sort)
  then have "?c \<in> set (map (\<lambda>(key, val). val_of val) h)" by simp
  then obtain key val where kv: "(key, val) \<in> set h" and c: "val_of val = ?c"
    by auto
  from c have "\<not> val_of val < ?c" by simp
  with items kv have nz: "fst dims * snd dims \<noteq> 0"
    using equalize_items_div by blast
  with items have "r = map (snap ?c dims shots) h"
    by (simp add: equalize_items_ok)
  with k len nz show ?thesis by blast
qed

lemma values_snap:
  "map (\<lambda>(key, val). val_of val) (map (snap c dims shots) h) =
   map (\<lambda>x. if x < c then 0 else fill_value dims shots) (map (\<lambda>(key, val). val_of val) h)"
  by (induction h) (auto simp: snap_def)

lemma cutoff_snap:
  assumes "0 \<le> fill_value dims shots" "i < length h"
  shows "sort (map (\<lambda>(key, val). val_of val) (map (snap (sort (map (\<lambda>(key, val). val_of val) h) ! i) dims shots) h)) ! i
         = fill_value dims shots"
proof -
  let ?xs = "map (\<lambda>(key, val). val_of val) h"
  let ?c = "sort ?xs ! i"
  let ?g = "\<lambda>x::real. if x < ?c then 0 else fill_value dims shots"
  have "mono ?g" using assms(1) by (auto simp: mono_def)
  then have "sort (map ?g ?xs) = map ?g (sort ?xs)" by (rule sort_map_mono)
  moreover have "i < length (sort ?xs)" using assms(2) by simp
  ultimately have "sort (map ?g ?xs) ! i = ?g ?c" by (simp del: sort_key_simps)
  then have "sort (map ?g ?xs) ! i = fill_value dims shots" by simp
  then show ?thesis unfolding values_snap .
qed

lemma snap_snap_numeric:
  assumes "0 \<le> fill_value dims shots"
  shows "numeric (map (snap (fill_value dims shots) dims shots) (map (snap c dims shots) h)) =
         numeric (map (snap c dims shots) h)"
  using assms by (induction h) (auto simp: numeric_def snap_def)

lemma snap_snap:
  assumes "0 < fill_value dims shots"
  shows "map (snap (fill_value dims shots) dims shots) (map (snap c dims shots) h) =
         map (snap c dims shots) h"
  using assms by (induction h) (auto simp: snap_def)

lemma equalize_count_twice:
  assumes "0 \<le> fill_value dims shots" "equalize_count k dims shots h = Inr r"
  shows "\<exists>r'. equalize_count k dims shots r = Inr r' \<and> numeric r' = numeric r \<and>
           (0 < fill_value dims shots \<longrightarrow> r' = r)"
proof -
  let ?c = "sort (map (\<lambda>(key, val). val_of val) h) ! (2 ^ (k - 1))"
  from assms(2) have k: "0 < k" and len: "2 ^ (k - 1) < length h"
    and nz: "fst dims * snd dims \<noteq> 0" and r: "r = map (snap ?c dims shots) h"
    using equalize_count_Inr by blast+
  from assms(1) len have c2: "sort (map (\<lambda>(key, val). val_of val) r) ! (2 ^ (k - 1)) = fill_value dims shots"
    unfolding r by (rule cutoff_snap)
  from r len have len': "2 ^ (k - 1) < length r" by simp
  from k len' c2 nz have "equalize_count k dims shots r = Inr (map (snap (fill_value dims shots) dims shots) r)"
    by (simp add: equalize_count_def Let_def equalize_items_ok)
  moreover have "numeric (map (snap (fill_value dims shots) dims shots) r) = numeric r"
    unfolding r using assms(1) by (rule snap_snap_numeric)
  moreover have "0 < fill_value dims shots \<longrightarrow> map (snap (fill_value dims shots) dims shots) r = r"
    unfolding r using snap_snap by blast
  ultimately show ?thesis by blast
qed

lemma equalize_twice:
  assumes "0 \<le> fill_value dims shots"
  shows "equalize k dims shots hs = Inr once \<Longrightarrow>
    \<exists>twice. equalize k dims shots once = Inr twice \<and> map numeric twice = map numeric once \<and>
           (0 < fill_value dims shots \<longrightarrow> twice = once)"
proof (induction hs arbitrary: once)
  case Nil
  then show ?case by auto
next
  case (Cons c cs)
  from Cons.prems obtain e1 es where
    c: "equalize_count k dims shots c = Inr e1" and cs: "equalize k dims shots cs = Inr es"
    and once: "once = e1 # es"
    by (auto split: sum.splits)
  from equalize_count_twice [OF assms c] obtain e1' where
    e1: "equalize_count k dims shots e1 = Inr e1'" "numeric e1' = numeric e1"
      "0 < fill_value dims shots \<longrightarrow> e1' = e1" by blast
  from Cons.IH [OF cs] obtain es' where
    es: "equalize k dims shots es = Inr es'" "map numeric es' = map numeric es"
      "0 < fill_value dims shots \<longrightarrow> es' = es" by blast
  from e1 es once show ?case by auto
qed


text \<open>
  C7. \<^verbatim>\<open>equalize\<close> is idempotent: for every list of histograms on which it returns a
  result and every shots count (a number of shots, so not negative, on a lattice whose
  dimensions have a non-negative product), applying \<^verbatim>\<open>equalize\<close> to its own result
  returns a result again, equal to the first as Python compares dictionaries (same keys in
  the same order, numerically equal values); for a positive shots count the two results
  are identical.
\<close>

theorem equalize_idempotent:
  assumes "0 \<le> shots" and "0 \<le> fst dims * snd dims"
    and "equalize k dims shots hs = Inr once"
  shows "\<exists>twice. equalize k dims shots once = Inr twice \<and>
           map numeric twice = map numeric once \<and> (0 < shots \<longrightarrow> twice = once)"
proof (cases hs)
  case Nil
  with assms(3) show ?thesis by auto
next
  case (Cons c cs)
  with assms(3) obtain e1 where "equalize_count k dims shots c = Inr e1"
    by (auto split: sum.splits)
  then have "fst dims * snd dims \<noteq> 0" using equalize_count_Inr by blast
  with assms(2) have pos: "0 < fst dims * snd dims" by (simp only: order_less_le) simp
  then have "0 < real_of_int (fst dims * snd dims)" by (simp only: of_int_0_less_iff)
  then have den: "0 < real_of_int (fst dims * snd dims) * 0.5" by simp
  from assms(1) have "0 \<le> real_of_int shots" by simp
  then have fill: "0 \<le> fill_value dims shots"
    unfolding fill_value_def using den by (rule divide_nonneg_pos)
  have "0 < shots \<longrightarrow> 0 < fill_value dims shots"
  proof
    assume "0 < shots"
    then have "0 < real_of_int shots" by simp
    then show "0 < fill_value dims shots"
      unfolding fill_value_def using den by (rule divide_pos_pos)
  qed
  with equalize_twice [OF fill assms(3)] show ?thesis by blast
qed

theorem equalize_idempotent_witness:
  "equalize 1 (2, 2) 4 [[(''0'', PyInt 1), (''1'', PyInt 3)]] =
     Inr [[(''0'', PyInt 0), (''1'', PyFloat 2)]] \<and>
   equalize 1 (2, 2) 4 [[(''0'', PyInt 0), (''1'', PyFloat 2)]] =
     Inr [[(''0'', PyInt 0), (''1'', PyFloat 2)]]"
proof -
  have once: "equalize 1 (2, 2) 4 [[(''0'', PyInt 1), (''1'', PyInt 3)]] =
      Inr [[(''0'', PyInt 0), (''1'', PyFloat 2)]]"
    by (simp add: equalize_count_def truediv_def)
  have "(0::int) \<le> 4" and "(0::int) \<le> fst (2, 2) * snd (2, 2)" by simp_all
  from equalize_idempotent [OF this once] once show ?thesis by auto
qed

section \<open>CancellationSampler: the combination step\<close>

lemma add_sample_ok:
  "total_weight \<noteq> 0 \<Longrightarrow>
   add_sample total_weight counts combined =
     Inr (map (\<lambda>(b, acc). (b, float_add acc
            (round_double (real_of_int (get_default counts b 0) / real total_weight)))) combined)"
  by (induction combined) (auto simp: int_truediv_def)

lemma add_samples_ok:
  "total_weight \<noteq> 0 \<Longrightarrow>
   add_samples total_weight samples combined =
     Inr (map (\<lambda>(b, acc). (b, foldl (\<lambda>acc counts. float_add acc
            (round_double (real_of_int (get_default counts b 0) / real total_weight))) acc samples))
          combined)"
proof (induction samples arbitrary: combined)
  case Nil
  then show ?case by (simp add: case_prod_unfold)
next
  case (Cons c cs)
  then show ?case
    by (simp add: add_sample_ok case_prod_unfold comp_def)
qed

lemma accumulate_means:
  "all_counts \<noteq> [] \<Longrightarrow>
   add_samples (length all_counts) all_counts
     (map (\<lambda>bitstring. (bitstring, 0)) (all_bitstrings_of all_counts)) = Inr (mean_counts all_counts)"
  by (simp add: add_samples_ok mean_counts_def mean_count_def comp_def)

lemma combine_pec_results_eq:
  "all_counts \<noteq> [] \<Longrightarrow>
   combine_pec_results all_counts repn target_shots =
     (if 0 < total_mean all_counts
      then Inr (map (\<lambda>(bs, c). (bs, PyInt (py_int (float_mul c
                  (round_double (float_of_int target_shots / total_mean all_counts))))))
             (mean_counts all_counts))
      else Inr (map (\<lambda>(bs, c). (bs, PyFloat c)) (mean_counts all_counts)))"
  by (simp add: combine_pec_results_def accumulate_means total_mean_def float_truediv_def Let_def)

lemma get_default_nonneg: "nonneg_counts d \<Longrightarrow> 0 \<le> get_default d b 0"
  by (auto simp: nonneg_counts_def get_default_def list_all_iff split: option.splits dest: map_of_SomeD)

lemma foldl_float_add_nonneg:
  "0 \<le> a \<Longrightarrow> (\<And>x. x \<in> set xs \<Longrightarrow> 0 \<le> f x) \<Longrightarrow>
   0 \<le> foldl (\<lambda>acc x. float_add acc (f x)) a xs"
proof (induction xs arbitrary: a)
  case Nil
  then show ?case by simp
next
  case (Cons x xs)
  have "0 \<le> a + f x" using Cons.prems by simp
  then have "0 \<le> float_add a (f x)" unfolding float_add_def by (rule round_double_nonneg)
  then show ?case using Cons by simp
qed

lemma foldl_float_add_pos:
  "0 < a \<Longrightarrow> (\<And>x. x \<in> set xs \<Longrightarrow> 0 \<le> f x) \<Longrightarrow>
   0 < foldl (\<lambda>acc x. float_add acc (f x)) a xs"
proof (induction xs arbitrary: a)
  case Nil
  then show ?case by simp
next
  case (Cons x xs)
  have "0 \<le> f x" using Cons.prems by simp
  with Cons.prems(1) have "0 < a + f x" by simp
  then have "0 < float_add a (f x)" unfolding float_add_def by (rule round_double_pos)
  then show ?case using Cons by simp
qed

lemma foldl_float_add_zero:
  "0 \<le> a \<Longrightarrow> (\<And>x. x \<in> set xs \<Longrightarrow> 0 \<le> f x) \<Longrightarrow>
   \<not> 0 < foldl (\<lambda>acc x. float_add acc (f x)) a xs \<Longrightarrow> a = 0 \<and> (\<forall>x \<in> set xs. f x = 0)"
proof (induction xs arbitrary: a)
  case Nil
  then show ?case by simp
next
  case (Cons x xs)
  have fx: "0 \<le> f x" using Cons.prems by simp
  then have s: "0 \<le> a + f x" using Cons.prems(1) by simp
  then have "0 \<le> float_add a (f x)" unfolding float_add_def by (rule round_double_nonneg)
  moreover have "\<And>y. y \<in> set xs \<Longrightarrow> 0 \<le> f y" using Cons.prems(2) by simp
  moreover have "\<not> 0 < foldl (\<lambda>acc x. float_add acc (f x)) (float_add a (f x)) xs"
    using Cons.prems(3) by simp
  ultimately have "float_add a (f x) = 0 \<and> (\<forall>y \<in> set xs. f y = 0)" by (rule Cons.IH)
  then have "a + f x = 0" and rest: "\<forall>y \<in> set xs. f y = 0"
    by (simp_all add: float_add_def round_double_zero_iff)
  with fx Cons.prems(1) have "a = 0" and "f x = 0" by linarith+
  with rest show ?case by simp
qed

lemma mean_count_nonneg:
  assumes "list_all nonneg_counts all_counts"
  shows "0 \<le> mean_count all_counts b"
  unfolding mean_count_def
proof (rule foldl_float_add_nonneg)
  show "(0::real) \<le> 0" by simp
next
  fix d
  assume "d \<in> set all_counts"
  with assms have "0 \<le> get_default d b 0"
    using get_default_nonneg by (auto simp: list_all_iff)
  then have "0 \<le> real_of_int (get_default d b 0) / real (length all_counts)" by simp
  then show "0 \<le> round_double (real_of_int (get_default d b 0) / real (length all_counts))"
    by (rule round_double_nonneg)
qed

lemma mean_counts_nonneg:
  "list_all nonneg_counts all_counts \<Longrightarrow> (bs, c) \<in> set (mean_counts all_counts) \<Longrightarrow> 0 \<le> c"
  by (auto simp: mean_counts_def mean_count_nonneg)

lemma float_sum_eq: "float_sum xs = foldl (\<lambda>acc x. float_add acc x) 0 xs"
  by (simp add: float_sum_def)

lemma mean_counts_all_zero:
  assumes "list_all nonneg_counts all_counts" and "\<not> 0 < total_mean all_counts"
  shows "mean_counts all_counts = map (\<lambda>bs. (bs, 0)) (all_bitstrings_of all_counts)"
proof -
  let ?vals = "map snd (mean_counts all_counts)"
  have nn: "\<And>x. x \<in> set ?vals \<Longrightarrow> 0 \<le> x"
    using mean_counts_nonneg [OF assms(1)] by auto
  have "\<not> 0 < foldl (\<lambda>acc x. float_add acc x) 0 ?vals"
    using assms(2) by (simp add: total_mean_def float_sum_eq)
  with nn have "(0::real) = 0 \<and> (\<forall>x \<in> set ?vals. x = 0)"
    by (intro foldl_float_add_zero) simp_all
  then have zero: "\<And>x. x \<in> set ?vals \<Longrightarrow> x = 0" by blast
  have "\<And>b. b \<in> set (all_bitstrings_of all_counts) \<Longrightarrow> mean_count all_counts b = 0"
  proof -
    fix b
    assume "b \<in> set (all_bitstrings_of all_counts)"
    then have "mean_count all_counts b \<in> set ?vals"
      by (force simp: mean_counts_def)
    then show "mean_count all_counts b = 0" by (rule zero)
  qed
  then show ?thesis by (simp add: mean_counts_def)
qed

text \<open>
  C10. \<^verbatim>\<open>_combine_pec_results\<close> never divides by zero: it returns a result for every
  input. For an empty list of samples the result is the empty histogram. When the summed
  means are not positive the rescaling is skipped and the unscaled means are returned;
  for samples with non-negative counts these are all zero.
\<close>

theorem combine_pec_results_total:
  "(\<exists>r. combine_pec_results all_counts repn target_shots = Inr r) \<and>
   combine_pec_results [] repn target_shots = Inr [] \<and>
   (all_counts \<noteq> [] \<and> \<not> 0 < total_mean all_counts \<longrightarrow>
      combine_pec_results all_counts repn target_shots =
        Inr (map (\<lambda>(bs, c). (bs, PyFloat c)) (mean_counts all_counts))) \<and>
   (all_counts \<noteq> [] \<and> \<not> 0 < total_mean all_counts \<and> list_all nonneg_counts all_counts \<longrightarrow>
      combine_pec_results all_counts repn target_shots =
        Inr (map (\<lambda>bs. (bs, PyFloat 0)) (all_bitstrings_of all_counts)))"
proof (intro conjI impI)
  show "\<exists>r. combine_pec_results all_counts repn target_shots = Inr r"
  proof (cases "all_counts = []")
    case True
    then show ?thesis by (simp add: combine_pec_results_def)
  next
    case False
    then show ?thesis by (simp add: combine_pec_results_eq)
  qed
next
  show "combine_pec_results [] repn target_shots = Inr []"
    by (simp add: combine_pec_results_def)
next
  assume "all_counts \<noteq> [] \<and> \<not> 0 < total_mean all_counts"
  then show "combine_pec_results all_counts repn target_shots =
      Inr (map (\<lambda>(bs, c). (bs, PyFloat c)) (mean_counts all_counts))"
    by (simp add: combine_pec_results_eq)
next
  assume a: "all_counts \<noteq> [] \<and> \<not> 0 < total_mean all_counts \<and> list_all nonneg_counts all_counts"
  then have "mean_counts all_counts = map (\<lambda>bs. (bs, 0)) (all_bitstrings_of all_counts)"
    using mean_counts_all_zero by blast
  with a show "combine_pec_results all_counts repn target_shots =
      Inr (map (\<lambda>bs. (bs, PyFloat 0)) (all_bitstrings_of all_counts))"
    by (simp add: combine_pec_results_eq comp_def)
qed

theorem combine_pec_results_total_witness:
  "combine_pec_results [[(''00'', 0), (''01'', 0)], [(''00'', 0), (''01'', 0)]] () 100 =
     Inr [(''00'', PyFloat 0), (''01'', PyFloat 0)]"
proof -
  have a: "[[(''00'', 0), (''01'', 0)], [(''00'', 0), (''01'', 0::int)]] \<noteq> [] \<and>
      \<not> 0 < total_mean [[(''00'', 0), (''01'', 0)], [(''00'', 0), (''01'', 0)]] \<and>
      list_all nonneg_counts [[(''00'', 0), (''01'', 0)], [(''00'', 0), (''01'', 0)]]"
    by (simp add: total_mean_def mean_counts_def mean_count_def all_bitstrings_of_def keys_def
        get_default_def nonneg_counts_def float_sum_def float_add_def round_double_values)
  have b: "all_bitstrings_of [[(''00'', 0), (''01'', 0)], [(''00'', 0), (''01'', 0)]] = [''00'', ''01'']"
    by (simp add: all_bitstrings_of_def keys_def)
  from a combine_pec_results_total [of "[[(''00'', 0), (''01'', 0)], [(''00'', 0), (''01'', 0)]]" "()" 100]
  have "combine_pec_results [[(''00'', 0), (''01'', 0)], [(''00'', 0), (''01'', 0)]] () 100 =
      Inr (map (\<lambda>bs. (bs, PyFloat 0)) (all_bitstrings_of [[(''00'', 0), (''01'', 0)], [(''00'', 0), (''01'', 0)]]))"
    by blast
  then show ?thesis by (simp add: b)
qed

section \<open>CancellationSampler: the rescaled counts\<close>







section \<open>ReadoutCorrector: keys, signs and totals\<close>

lemma rem_length: "length (rem quasi nearest shots hs) = length hs"
  by (simp add: rem_def)

lemma rem_nth:
  "i < length hs \<Longrightarrow>
   rem quasi nearest shots hs ! i =
     map (\<lambda>(label, prob). (label, py_int (float_mul prob (float_of_int shots))))
       (nearest (quasi (hs ! i)))"
  by (simp add: rem_def)

text \<open>
  C3 (as amended). For every input histogram and shots count, the histogram \<^verbatim>\<open>rem\<close>
  returns has exactly the keys of the probability distribution that the calibration
  library returns for the input, which need not be the keys of the input, and every count
  in it is a non-negative integer.
\<close>

theorem rem_keys_and_counts:
  assumes "i < length hs" and "0 \<le> shots"
    and "list_all (\<lambda>(label, prob). 0 \<le> prob) (nearest (quasi (hs ! i)))"
  shows "length (rem quasi nearest shots hs) = length hs \<and>
         keys (rem quasi nearest shots hs ! i) = keys (nearest (quasi (hs ! i))) \<and>
         nonneg_counts (rem quasi nearest shots hs ! i)"
proof -
  have k: "keys (rem quasi nearest shots hs ! i) = keys (nearest (quasi (hs ! i)))"
    using assms(1) by (simp add: rem_nth keys_def comp_def case_prod_unfold)
  have s: "0 \<le> float_of_int shots" using assms(2) by (rule float_of_int_nonneg)
  have "nonneg_counts (rem quasi nearest shots hs ! i)"
    unfolding rem_nth [OF assms(1)] nonneg_counts_def list_all_iff
  proof
    fix x
    assume "x \<in> set (map (\<lambda>(label, prob). (label, py_int (float_mul prob (float_of_int shots))))
        (nearest (quasi (hs ! i))))"
    then obtain label prob where lp: "(label, prob) \<in> set (nearest (quasi (hs ! i)))"
      and x: "x = (label, py_int (float_mul prob (float_of_int shots)))" by auto
    from lp assms(3) have "0 \<le> prob" by (auto simp: list_all_iff)
    then have "0 \<le> float_mul prob (float_of_int shots)" using s by (rule float_mul_nonneg)
    then have "0 \<le> py_int (float_mul prob (float_of_int shots))" by (rule py_int_nonneg)
    with x show "case x of (key, val) \<Rightarrow> 0 \<le> val" by simp
  qed
  with k show ?thesis by (simp add: rem_length)
qed

lemma rem_quarters:
  "rem (\<lambda>c. c) (\<lambda>q. [(''0'', 1 / 4), (''1'', 3 / 4)]) 8 [[(''0'', 3), (''1'', 5)]] =
     [[(''0'', 2), (''1'', 6)]]"
  by (simp add: rem_def float_mul_def float_of_int_def round_double_values py_int_def)

theorem rem_keys_and_counts_witness:
  "rem (\<lambda>c. c) (\<lambda>q. [(''0'', 1 / 4), (''1'', 3 / 4)]) 8 [[(''0'', 3), (''1'', 5)]] ! 0 =
     [(''0'', 2), (''1'', 6)] \<and>
   keys (rem (\<lambda>c. c) (\<lambda>q. [(''0'', 1 / 4), (''1'', 3 / 4)]) 8 [[(''0'', 3), (''1'', 5)]] ! 0) =
     [''0'', ''1''] \<and>
   nonneg_counts (rem (\<lambda>c. c) (\<lambda>q. [(''0'', 1 / 4), (''1'', 3 / 4)]) 8 [[(''0'', 3), (''1'', 5)]] ! 0)"
proof -
  have h1: "(0::nat) < length [[(''0'', 3::int), (''1'', 5)]]" by simp
  have h2: "(0::int) \<le> 8" by simp
  have h3: "list_all (\<lambda>(label, prob). (0::real) \<le> prob)
      ((\<lambda>q. [(''0'', 1 / 4), (''1'', 3 / 4)]) ((\<lambda>c. c) ([[(''0'', 3::int), (''1'', 5)]] ! 0)))"
    by simp
  from rem_keys_and_counts [where i = 0 and hs = "[[(''0'', 3), (''1'', 5)]]" and shots = 8
      and nearest = "\<lambda>q. [(''0'', 1 / 4), (''1'', 3 / 4)]" and quasi = "\<lambda>c. c", OF h1 h2 h3]
  show ?thesis by (simp add: rem_quarters keys_def)
qed

text \<open>
  Two measured qubits, of which only the outcomes \<^verbatim>\<open>"00"\<close> and \<^verbatim>\<open>"11"\<close> were
  observed, and a calibration whose distribution covers all four outcomes: the histogram
  returned has four keys, the input has two.
\<close>

theorem rem_keys_and_counts_counterexample:
  "near_distribution 0 [(''00'', 5 / 8), (''01'', 0), (''10'', 0), (''11'', 3 / 8)] \<and>
   rem (\<lambda>c. c) (\<lambda>q. [(''00'', 5 / 8), (''01'', 0), (''10'', 0), (''11'', 3 / 8)]) 8
       [[(''00'', 5), (''11'', 3)]] =
     [[(''00'', 5), (''01'', 0), (''10'', 0), (''11'', 3)]] \<and>
   set (keys [(''00'', 5::int), (''01'', 0), (''10'', 0), (''11'', 3)]) \<noteq>
     set (keys [(''00'', 5::int), (''11'', 3)])"
proof -
  have "''01'' \<in> set (keys [(''00'', 5::int), (''01'', 0), (''10'', 0), (''11'', 3)])"
    by (simp add: keys_def)
  moreover have "''01'' \<notin> set (keys [(''00'', 5::int), (''11'', 3)])"
    by (simp add: keys_def)
  ultimately have "set (keys [(''00'', 5::int), (''01'', 0), (''10'', 0), (''11'', 3)]) \<noteq>
      set (keys [(''00'', 5::int), (''11'', 3)])"
    by blast
  then show ?thesis
    by (simp add: rem_def float_mul_def float_of_int_def round_double_values py_int_def
        near_distribution_def)
qed


lemma total_counts_of_rescaled:
  "real_of_int (total_counts_of (map (\<lambda>(label, prob). (label, py_int (f prob))) d)) =
   sum_list (map (\<lambda>x. real_of_int (py_int x)) (map (\<lambda>(label, prob). f prob) d))"
  by (induction d) (auto simp: total_counts_of_def)

text \<open>
  C4 (as amended). For every input histogram and every shots count, \<^verbatim>\<open>rem\<close>
  multiplies each probability of the distribution that the calibration library projects the
  quasi-probabilities onto by the shots count, in floats, and truncates the product to an
  integer. When the probabilities sum to 1 within a tolerance \<open>tol\<close> and the shots count
  times the accumulated relative error, \<open>tol + (1 + tol) / 2\<^sup>5\<^sup>3\<close>, is below 1, the
  counts sum to at most the shots count and to at least the shots count minus the number of
  labels; they need not sum to the shots count.
\<close>

theorem rem_rescales:
  assumes "i < length hs" and "0 \<le> shots"
    and "near_distribution tol (nearest (quasi (hs ! i)))"
    and "real_of_int shots * (tol + (1 + tol) / 2 ^ 53) < 1"
  shows "rem quasi nearest shots hs ! i =
           map (\<lambda>(label, prob). (label, py_int (round_double (prob * real_of_int shots))))
             (nearest (quasi (hs ! i))) \<and>
         total_counts_of (rem quasi nearest shots hs ! i) \<le> shots \<and>
         shots - int (length (rem quasi nearest shots hs ! i)) \<le>
           total_counts_of (rem quasi nearest shots hs ! i)"
proof -
  let ?d = "nearest (quasi (hs ! i))"
  let ?r = "rem quasi nearest shots hs ! i"
  define s where "s = real_of_int shots"
  define u :: real where "u = 1 / 2 ^ 53"
  define P where "P = sum_list (map snd ?d)"
  let ?xs = "map (\<lambda>(label, prob). round_double (prob * s)) ?d"
  have s0: "0 \<le> s" using assms(2) by (simp add: s_def)
  have u0: "0 < u" by (simp add: u_def)
  from assms(3) have probs: "list_all (\<lambda>(label, prob). 0 \<le> prob) ?d"
    and near: "\<bar>P - 1\<bar> \<le> tol"
    by (simp_all add: near_distribution_def P_def)
  from near have tol0: "0 \<le> tol" and Plo: "1 - tol \<le> P" and Phi: "P \<le> 1 + tol"
    by linarith+
  have side: "s * (tol + (1 + tol) * u) < 1"
    using assms(4) by (simp add: s_def u_def)
  text \<open>The shots count is below \<open>2\<^sup>5\<^sup>3\<close>, so its conversion to a float is exact.\<close>
  have "s * u \<le> s * (tol + (1 + tol) * u)"
  proof -
    have "u \<le> tol + (1 + tol) * u" using tol0 u0 by (simp add: algebra_simps)
    then show ?thesis using s0 by (rule mult_left_mono)
  qed
  with side have "s * u < 1" by linarith
  then have "s < 2 ^ 53" by (simp add: u_def)
  then have "shots < 2 ^ 53" unfolding s_def
    by (metis of_int_less_iff of_int_numeral of_int_power)
  with assms(2) have conv: "float_of_int shots = s"
    by (simp add: float_of_int_exact s_def)
  have r: "?r = map (\<lambda>(label, prob). (label, py_int (round_double (prob * s)))) ?d"
    using assms(1) by (simp add: rem_nth conv float_mul_def)
  have nn: "\<And>x. x \<in> set ?xs \<Longrightarrow> 0 \<le> x"
  proof -
    fix x
    assume "x \<in> set ?xs"
    then obtain label prob where lp: "(label, prob) \<in> set ?d" and x: "x = round_double (prob * s)"
      by auto
    from lp probs have "0 \<le> prob" by (auto simp: list_all_iff)
    with s0 have "0 \<le> prob * s" by simp
    then show "0 \<le> x" unfolding x by (rule round_double_nonneg)
  qed
  from rounded_products_sum [OF s0 probs]
  have lo: "(1 - u) * (P * s) \<le> sum_list ?xs" and hi: "sum_list ?xs \<le> (1 + u) * (P * s)"
    by (simp_all add: u_def P_def)
  have tot: "real_of_int (total_counts_of ?r) = sum_list (map (\<lambda>x. real_of_int (py_int x)) ?xs)"
    unfolding r by (rule total_counts_of_rescaled)
  have len: "length ?r = length ?xs" by (simp add: r)
  text \<open>Upper bound.\<close>
  have "P * s \<le> (1 + tol) * s" using Phi s0 by (rule mult_right_mono)
  then have "(1 + u) * (P * s) \<le> (1 + u) * ((1 + tol) * s)"
    using u0 by (intro mult_left_mono) simp_all
  also have "\<dots> = s + s * (tol + (1 + tol) * u)" by (simp add: algebra_simps)
  also have "\<dots> < s + 1" using side by simp
  finally have "sum_list ?xs < s + 1" using hi by linarith
  moreover from truncated_sum_upper [of ?xs] nn
  have "real_of_int (total_counts_of ?r) \<le> sum_list ?xs" unfolding tot by blast
  ultimately have "real_of_int (total_counts_of ?r) < real_of_int (shots + 1)"
    by (simp add: s_def)
  then have "total_counts_of ?r < shots + 1" by (simp only: of_int_less_iff)
  then have up: "total_counts_of ?r \<le> shots" by simp
  text \<open>Lower bound.\<close>
  have u1: "0 \<le> 1 - u" by (simp add: u_def)
  have "(1 - tol) * s \<le> P * s" using Plo s0 by (rule mult_right_mono)
  then have "(1 - u) * ((1 - tol) * s) \<le> (1 - u) * (P * s)"
    using u1 by (rule mult_left_mono)
  moreover have "(1 - u) * ((1 - tol) * s) = s - s * (tol + (1 + tol) * u) + 2 * (s * (u * tol))"
    by (simp add: algebra_simps)
  moreover have "0 \<le> 2 * (s * (u * tol))" using s0 u0 tol0 by simp
  ultimately have "s - 1 < sum_list ?xs" using side lo by linarith
  moreover from truncated_sum_lower [of ?xs] nn
  have "sum_list ?xs - real (length ?xs) \<le> real_of_int (total_counts_of ?r)"
    unfolding tot by blast
  ultimately have "real_of_int (shots - int (length ?r) - 1) < real_of_int (total_counts_of ?r)"
    by (simp add: s_def len)
  then have "shots - int (length ?r) - 1 < total_counts_of ?r" by (simp only: of_int_less_iff)
  then have low: "shots - int (length ?r) \<le> total_counts_of ?r" by simp
  from r up low show ?thesis by (simp add: s_def)
qed

theorem rem_rescales_witness:
  "rem (\<lambda>c. c) (\<lambda>q. [(''0'', 1 / 4), (''1'', 3 / 4)]) 8 [[(''0'', 3), (''1'', 5)]] ! 0 =
     [(''0'', 2), (''1'', 6)] \<and>
   total_counts_of (rem (\<lambda>c. c) (\<lambda>q. [(''0'', 1 / 4), (''1'', 3 / 4)]) 8 [[(''0'', 3), (''1'', 5)]] ! 0) \<le> 8 \<and>
   8 - int (length (rem (\<lambda>c. c) (\<lambda>q. [(''0'', 1 / 4), (''1'', 3 / 4)]) 8 [[(''0'', 3), (''1'', 5)]] ! 0)) \<le>
     total_counts_of (rem (\<lambda>c. c) (\<lambda>q. [(''0'', 1 / 4), (''1'', 3 / 4)]) 8 [[(''0'', 3), (''1'', 5)]] ! 0)"
proof -
  have h1: "(0::nat) < length [[(''0'', 3::int), (''1'', 5)]]" by simp
  have h2: "(0::int) \<le> 8" by simp
  have h3: "near_distribution 0
      ((\<lambda>q. [(''0'', 1 / 4), (''1'', 3 / 4)]) ((\<lambda>c. c) ([[(''0'', 3::int), (''1'', 5)]] ! 0)))"
    by (simp add: near_distribution_def)
  have h4: "real_of_int 8 * (0 + (1 + 0) / 2 ^ 53) < 1" by simp
  from rem_rescales [where i = 0 and hs = "[[(''0'', 3), (''1'', 5)]]" and shots = 8 and tol = 0
      and nearest = "\<lambda>q. [(''0'', 1 / 4), (''1'', 3 / 4)]" and quasi = "\<lambda>c. c", OF h1 h2 h3 h4]
  have e: "rem (\<lambda>c. c) (\<lambda>q. [(''0'', 1 / 4), (''1'', 3 / 4)]) 8 [[(''0'', 3), (''1'', 5)]] ! 0 =
      [(''0'', 2), (''1'', 6)]"
    by (simp add: round_double_values py_int_def)
  then show ?thesis by (simp add: total_counts_of_def)
qed

text \<open>
  Four labels of probability 1/4 and 10 shots: each product is 2.5 exactly, each count is
  \<open>int(2.5) = 2\<close>, and the counts sum to 8.
\<close>

theorem rem_rescales_counterexample:
  "near_distribution 0 [(''00'', 1 / 4), (''01'', 1 / 4), (''10'', 1 / 4), (''11'', 1 / 4)] \<and>
   rem (\<lambda>c. c) (\<lambda>q. [(''00'', 1 / 4), (''01'', 1 / 4), (''10'', 1 / 4), (''11'', 1 / 4)]) 10
       [[(''00'', 3), (''01'', 2), (''10'', 3), (''11'', 2)]] =
     [[(''00'', 2), (''01'', 2), (''10'', 2), (''11'', 2)]] \<and>
   total_counts_of [(''00'', 2), (''01'', 2), (''10'', 2), (''11'', 2)] = 8"
  by (simp add: rem_def float_mul_def float_of_int_def round_double_values py_int_def
      near_distribution_def total_counts_of_def)

section \<open>NoiseExtrapolator: expectation values and counts\<close>

lemma expectation_values_present:
  "shots \<noteq> 0 \<Longrightarrow> list_all (\<lambda>counts. get counts b \<noteq> None) step_counts \<Longrightarrow>
   expectation_values shots b step_counts =
     Inr (map (\<lambda>counts. real_of_int (get_default counts b 0) / real_of_int shots) step_counts)"
  by (induction step_counts) (auto simp: truediv_def get_def get_default_def)

lemma expectation_values_missing:
  "shots \<noteq> 0 \<Longrightarrow> \<not> list_all (\<lambda>counts. get counts b \<noteq> None) step_counts \<Longrightarrow>
   expectation_values shots b step_counts = Inl TypeError"
  by (induction step_counts) (auto simp: truediv_def split: option.splits)

lemma bitstring_exps_eq:
  "shots \<noteq> 0 \<Longrightarrow> bitstring_exps shots step_counts b = Inr (expectations shots step_counts b)"
  by (cases "list_all (\<lambda>counts. get counts b \<noteq> None) step_counts")
    (simp_all add: bitstring_exps_def expectations_def expectation_values_present
      expectation_values_missing)

lemma all_exps_of_eq:
  "shots \<noteq> 0 \<Longrightarrow>
   all_exps_of shots step_counts bitstrings =
     Inr (map (\<lambda>b. (b, expectations shots step_counts b)) bitstrings)"
  by (induction bitstrings) (simp_all add: bitstring_exps_eq)

lemma all_exps_arr_of_eq:
  "shots \<noteq> 0 \<Longrightarrow>
   all_exps_arr_of shots bitstrings all_counts =
     Inr (map (\<lambda>step_counts. map (\<lambda>b. (b, expectations shots step_counts b)) bitstrings) all_counts)"
  by (induction all_counts) (simp_all add: all_exps_of_eq)

lemma zip_with_image: "zip xs (map f xs) = map (\<lambda>x. (x, f x)) xs"
  by (induction xs) simp_all

lemma zne_mitigated_counts_eq:
  "shots \<noteq> 0 \<Longrightarrow>
   zne_mitigated_counts extrapolate bitstrings shots first all_counts =
     Inr (first # map (\<lambda>step_counts.
            map (\<lambda>b. (b, py_int (zero_noise_value extrapolate shots step_counts b * real_of_int shots)))
              bitstrings) all_counts)"
  by (simp add: zne_mitigated_counts_def all_exps_arr_of_eq zero_noise_value_def comp_def
      zip_with_image Let_def)



text \<open>
  C1 (as amended). For every bitstring of the list and every step (shots not 0): if the
  bitstring is present in the corrected histogram of every scale factor, its expectation
  value at each scale factor is that histogram's count divided by shots; if it is absent
  from the histogram of at least one scale factor, its expectation value is taken to be 0
  at every scale factor of the step, also where a count is present. Either way the
  bitstring keeps its entry: the expectation values and every extrapolated histogram
  have exactly the given bitstrings as keys.
\<close>

theorem zne_absent_bitstring:
  assumes "shots \<noteq> 0"
  shows "(list_all (\<lambda>counts. get counts b \<noteq> None) step_counts \<longrightarrow>
            bitstring_exps shots step_counts b =
              Inr (map (\<lambda>counts. real_of_int (get_default counts b 0) / real_of_int shots) step_counts)) \<and>
         (\<not> list_all (\<lambda>counts. get counts b \<noteq> None) step_counts \<longrightarrow>
            bitstring_exps shots step_counts b = Inr (map (\<lambda>counts. 0) step_counts)) \<and>
         (\<exists>all_exps. all_exps_of shots step_counts bitstrings = Inr all_exps \<and>
            keys all_exps = bitstrings) \<and>
         (\<exists>mc. zne_mitigated_counts extrapolate bitstrings shots first all_counts = Inr (first # mc) \<and>
            list_all (\<lambda>h. keys h = bitstrings) mc)"
proof (intro conjI impI)
  assume "list_all (\<lambda>counts. get counts b \<noteq> None) step_counts"
  with assms show "bitstring_exps shots step_counts b =
      Inr (map (\<lambda>counts. real_of_int (get_default counts b 0) / real_of_int shots) step_counts)"
    by (simp add: bitstring_exps_eq expectations_def)
next
  assume "\<not> list_all (\<lambda>counts. get counts b \<noteq> None) step_counts"
  with assms show "bitstring_exps shots step_counts b = Inr (map (\<lambda>counts. 0) step_counts)"
    by (simp add: bitstring_exps_eq expectations_def)
next
  show "\<exists>all_exps. all_exps_of shots step_counts bitstrings = Inr all_exps \<and> keys all_exps = bitstrings"
    using assms by (simp add: all_exps_of_eq keys_def comp_def)
next
  show "\<exists>mc. zne_mitigated_counts extrapolate bitstrings shots first all_counts = Inr (first # mc) \<and>
      list_all (\<lambda>h. keys h = bitstrings) mc"
    using assms by (simp add: zne_mitigated_counts_eq keys_def comp_def list_all_iff)
qed

theorem zne_absent_bitstring_witness:
  "bitstring_exps 100 drifting_step_missing ''1'' = Inr [0, 0, 0, 0, 0, 0, 0]"
proof -
  have h1: "(100::int) \<noteq> 0" by simp
  have h2: "\<not> list_all (\<lambda>counts. get counts ''1'' \<noteq> None) drifting_step_missing"
    by (simp add: drifting_step_missing_def get_def)
  from zne_absent_bitstring [OF h1, of "''1''" drifting_step_missing] h2
  have "bitstring_exps 100 drifting_step_missing ''1'' = Inr (map (\<lambda>counts. 0) drifting_step_missing)"
    by blast
  then show ?thesis by (simp add: drifting_step_missing_def)
qed

text \<open>
  The bitstring \<^verbatim>\<open>"1"\<close> is absent from the histogram of scale factor 1 only. The
  histogram of scale factor 1.5 holds it with count 5, yet its expectation value there is
  0 and not 5/100.
\<close>

theorem zne_absent_bitstring_counterexample:
  "get (drifting_step_missing ! 0) ''1'' = None \<and>
   get (drifting_step_missing ! 1) ''1'' = Some 5 \<and>
   bitstring_exps 100 drifting_step_missing ''1'' = Inr [0, 0, 0, 0, 0, 0, 0] \<and>
   bitstring_exps 100 drifting_step_missing ''1'' \<noteq>
     Inr [0, 5 / 100, 10 / 100, 15 / 100, 20 / 100, 25 / 100, 30 / 100]"
  by (simp add: drifting_step_missing_def get_def bitstring_exps_def truediv_def)

section \<open>NoiseExtrapolator: the sign of the extrapolated counts\<close>







section \<open>CancellationSampler: the table of representations\<close>

lemma represent_circuit_cached:
  "load st (get_key ops_hash backend_name c) = Some cached \<Longrightarrow>
   represent_circuit producer ops_hash backend_name config n st c = (cached, st)"
  by (simp add: represent_circuit_def)

lemma represent_circuit_miss_ok:
  "load st (get_key ops_hash backend_name c) = None \<Longrightarrow>
   producer c (noise_level config) (min n (max_samples config)) = Some repn \<Longrightarrow>
   represent_circuit producer ops_hash backend_name config n st c =
     (repn, store (st\<lparr>producer_calls := producer_calls st + 1\<rparr>) (get_key ops_hash backend_name c) repn)"
  by (simp add: represent_circuit_def)

lemma represent_circuit_miss_fail:
  "load st (get_key ops_hash backend_name c) = None \<Longrightarrow>
   producer c (noise_level config) (min n (max_samples config)) = None \<Longrightarrow>
   represent_circuit producer ops_hash backend_name config n st c =
     ([], st\<lparr>producer_calls := producer_calls st + 1\<rparr>)"
  by (simp add: represent_circuit_def)

lemma load_store: "load (store st key reps) key = Some reps"
  by (simp add: load_def store_def)

lemma generate_single:
  "generate_pec_representations producer ops_hash backend_name dims st [c] n =
     Inr ([fst (represent_circuit producer ops_hash backend_name (get_config backend_name dims) n st c)],
          snd (represent_circuit producer ops_hash backend_name (get_config backend_name dims) n st c))"
  by (simp add: generate_pec_representations_def case_prod_unfold Let_def)

text \<open>
  C5 (as amended). For every cache key: when the first request finds the representation
  in the table, or the producer builds one without raising, a second request for the
  same circuit returns the stored artifact, equal to the one the first request returned,
  without invoking the producer and without changing the table; over the two requests
  the producer is invoked at most once. When the producer raises, nothing is stored and
  the next request invokes it again.
\<close>

theorem representation_cached_after_success:
  assumes "generate_pec_representations producer ops_hash backend_name dims st [c] n = Inr (reps, st')"
    and "load st (get_key ops_hash backend_name c) \<noteq> None \<or>
         producer c (noise_level (get_config backend_name dims))
           (min n (max_samples (get_config backend_name dims))) \<noteq> None"
  shows "generate_pec_representations producer ops_hash backend_name dims st' [c] n = Inr (reps, st') \<and>
         producer_calls st' \<le> producer_calls st + 1"
proof (cases "load st (get_key ops_hash backend_name c)")
  case (Some cached)
  with assms(1) have "reps = [cached]" and "st' = st"
    by (simp_all add: generate_single represent_circuit_cached)
  with Some show ?thesis
    by (simp add: generate_single represent_circuit_cached)
next
  case None
  with assms(2) obtain repn where
    p: "producer c (noise_level (get_config backend_name dims))
          (min n (max_samples (get_config backend_name dims))) = Some repn"
    by auto
  let ?called = "st\<lparr>producer_calls := producer_calls st + 1\<rparr>"
  from assms(1) None p have reps: "reps = [repn]"
    and st': "st' = store ?called (get_key ops_hash backend_name c) repn"
    by (simp_all add: generate_single represent_circuit_miss_ok)
  have "load st' (get_key ops_hash backend_name c) = Some repn"
    unfolding st' by (rule load_store)
  then have "generate_pec_representations producer ops_hash backend_name dims st' [c] n =
      Inr ([repn], st')"
    by (simp add: generate_single represent_circuit_cached)
  moreover have "producer_calls st' = producer_calls st + 1"
    by (simp add: st' store_def)
  ultimately show ?thesis using reps by simp
qed


theorem representation_cached_after_success_witness:
  "generate_pec_representations (\<lambda>c level n. Some [7]) (\<lambda>ops. 0) ''ibm_brisbane'' (2, 2)
       new_table [sample_circuit] 10000 = Inr ([[7]], stored_table) \<and>
   generate_pec_representations (\<lambda>c level n. Some [7]) (\<lambda>ops. 0) ''ibm_brisbane'' (2, 2)
       stored_table [sample_circuit] 10000 = Inr ([[7]], stored_table) \<and>
   producer_calls stored_table \<le> producer_calls new_table + 1"
proof -
  have first: "generate_pec_representations (\<lambda>c level n. Some [7]) (\<lambda>ops. 0) ''ibm_brisbane'' (2, 2)
      new_table [sample_circuit] 10000 = Inr ([[7]], stored_table)"
    by (simp add: generate_pec_representations_def represent_circuit_def get_key_def load_def
        store_def new_table_def stored_table_def sample_circuit_def Let_def)
  have ok: "load new_table (get_key (\<lambda>ops. 0) ''ibm_brisbane'' sample_circuit) \<noteq> None \<or>
      (\<lambda>c level n. Some [7::nat]) sample_circuit (noise_level (get_config ''ibm_brisbane'' (2, 2)))
        (min 10000 (max_samples (get_config ''ibm_brisbane'' (2, 2)))) \<noteq> None"
    by simp
  from representation_cached_after_success [OF first ok] first show ?thesis by blast
qed

text \<open>
  A producer that raises: the first request stores nothing, and the second request
  invokes the producer again, two calls for one key.
\<close>

theorem representation_cached_after_success_counterexample:
  "generate_pec_representations (\<lambda>c level n. None) (\<lambda>ops. 0) ''ibm_brisbane'' (2, 2)
       new_table [sample_circuit] 10000 =
     Inr ([[]], new_table\<lparr>producer_calls := 1\<rparr>) \<and>
   generate_pec_representations (\<lambda>c level n. None) (\<lambda>ops. 0) ''ibm_brisbane'' (2, 2)
       (new_table\<lparr>producer_calls := 1\<rparr>) [sample_circuit] 10000 =
     Inr ([[]], new_table\<lparr>producer_calls := 2\<rparr>)"
  by (simp add: generate_pec_representations_def represent_circuit_def get_key_def load_def
      new_table_def sample_circuit_def Let_def)

section \<open>Orchestrator: the post-processing branch\<close>

lemma str_int_digit: "0 \<le> i \<Longrightarrow> i < 10 \<Longrightarrow> str_int i = [digit_char (nat i)]"
  by (simp add: str_int_def)

lemma label_tail_2x2: "label_tail (2, 2) = ''-collisionless-2x2-ibm-qpu''"
  by (simp add: label_tail_def str_int_digit digit_char_def)

text \<open>
  The post-processing branch of \<^verbatim>\<open>mitigate\<close>: \<^verbatim>\<open>rem\<close> first, if enabled, then
  \<^verbatim>\<open>ibu\<close> on its result, if enabled. The flag \<^verbatim>\<open>equalization\<close> is not read.
\<close>

lemma mitigate_post_processing:
  assumes "\<not> probabilistic_error_cancellation self"
    and "readout_error_mitigation self \<or> iterative_bayesian_unfolding self"
  shows "mitigate self dims self_rem self_ibu self_pec qcs shots counts =
    ((if iterative_bayesian_unfolding self then self_ibu qcs shots else (\<lambda>c. c))
       ((if readout_error_mitigation self then self_rem shots else (\<lambda>c. c)) counts),
     join ''-'' ((if readout_error_mitigation self then [''rem''] else []) @
                 (if iterative_bayesian_unfolding self then [''ibu''] else [])) @ label_tail dims)"
  using assms by (auto simp: mitigate_def)

text \<open>
  C2. With the cancellation flag off, readout correction on and equalization on,
  \<^verbatim>\<open>mitigate\<close> returns the histograms of \<^verbatim>\<open>rem\<close> as they are, under the label
  \<^verbatim>\<open>rem-collisionless-2x2-ibm-qpu\<close>. The claim has \<^verbatim>\<open>equalize\<close> applied to them,
  which on the same data gives a different list of histograms.
\<close>

theorem mitigate_returns_unequalized:
  "mitigate \<lparr>equalization = True, readout_error_mitigation = True,
             iterative_bayesian_unfolding = False, zero_noise_extrapolation = False,
             probabilistic_error_cancellation = False\<rparr> (2, 2)
       (rem (\<lambda>c. c) (\<lambda>q. [(''0'', 1 / 4), (''1'', 3 / 4)])) self_ibu self_pec qcs 8
       [[(''0'', 3), (''1'', 5)]] =
     ([[(''0'', 2), (''1'', 6)]], ''rem-collisionless-2x2-ibm-qpu'') \<and>
   equalize 1 (2, 2) 8 (map as_histogram [[(''0'', 2), (''1'', 6)]]) =
     Inr [[(''0'', PyInt 0), (''1'', PyFloat 4)]]"
proof -
  have "rem (\<lambda>c. c) (\<lambda>q. [(''0'', 1 / 4), (''1'', 3 / 4)]) 8 [[(''0'', 3), (''1'', 5)]] =
      [[(''0'', 2), (''1'', 6)]]"
    by (simp add: rem_def float_mul_def float_of_int_def round_double_values py_int_def)
  then have "mitigate \<lparr>equalization = True, readout_error_mitigation = True,
             iterative_bayesian_unfolding = False, zero_noise_extrapolation = False,
             probabilistic_error_cancellation = False\<rparr> (2, 2)
       (rem (\<lambda>c. c) (\<lambda>q. [(''0'', 1 / 4), (''1'', 3 / 4)])) self_ibu self_pec qcs 8
       [[(''0'', 3), (''1'', 5)]] =
     ([[(''0'', 2), (''1'', 6)]], ''rem-collisionless-2x2-ibm-qpu'')"
    by (simp add: mitigate_def label_tail_2x2)
  moreover have "equalize 1 (2, 2) 8 (map as_histogram [[(''0'', 2), (''1'', 6)]]) =
      Inr [[(''0'', PyInt 0), (''1'', PyFloat 4)]]"
    by (simp add: as_histogram_def equalize_count_def truediv_def)
  ultimately show ?thesis by blast
qed

end
